theory Spec2Isabelle
  imports Main "HOL-Library.Sublist" "HOL-Library.Char_ord" "HOL-Library.List_Lexorder"
begin

section \<open>The edge worker (src/worker/index.ts)\<close>

subsection \<open>JavaScript strings\<close>

text \<open>
  \<^verbatim>\<open>String.prototype.startsWith\<close> and \<^verbatim>\<open>String.prototype.includes\<close>.
  A string is a list of characters; \<open>includes_str s sub\<close> looks for \<open>sub\<close> at every
  position of \<open>s\<close>, from the left.
\<close>

definition startsWith :: "string \<Rightarrow> string \<Rightarrow> bool" where
  "startsWith s p = prefix p s"

fun includes_str :: "string \<Rightarrow> string \<Rightarrow> bool" where
  "includes_str [] sub = (sub = [])"
| "includes_str (c # cs) sub = (prefix sub (c # cs) \<or> includes_str cs sub)"

text \<open>
  \<^verbatim>\<open>String.prototype.split(sep)\<close> with a string separator: the pieces between the
  occurrences of \<open>sep\<close>, found from the left without overlap. \<open>acc\<close> holds the
  current piece, reversed. With the empty separator JavaScript returns the characters.
\<close>

function split_from :: "string \<Rightarrow> string \<Rightarrow> string \<Rightarrow> string list" where
  "split_from sep acc [] = [rev acc]"
| "split_from sep acc (c # cs) =
     (if prefix sep (c # cs)
      then rev acc # split_from sep [] (drop (length sep - 1) cs)
      else split_from sep (c # acc) cs)"
  by pat_completeness auto
termination
  by (relation "measure (\<lambda>(sep, acc, s). length s)") auto

definition split_str :: "string \<Rightarrow> string \<Rightarrow> string list" where
  "split_str s sep = (if sep = [] then map (\<lambda>c. [c]) s else split_from sep [] s)"

text \<open>Indexing an array: out of range is \<^verbatim>\<open>undefined\<close>, here \<open>None\<close>.\<close>

definition at_index :: "'a list \<Rightarrow> nat \<Rightarrow> 'a option" where
  "at_index xs i = (if i < length xs then Some (xs ! i) else None)"

subsection \<open>Headers\<close>

text \<open>
  A \<^verbatim>\<open>Headers\<close> object is its header list: (name, value) pairs in the order they
  were appended. Names are matched without regard to ASCII case.
\<close>

type_synonym headers = "(string \<times> string) list"

definition lower_char :: "char \<Rightarrow> char" where
  "lower_char c =
     (if (65::nat) \<le> of_char c \<and> of_char c \<le> (90::nat)
      then char_of (of_char c + (32::nat)) else c)"

definition lower :: "string \<Rightarrow> string" where
  "lower s = map lower_char s"

text \<open>The values of the headers called \<open>n\<close> (\<open>n\<close> in lower case), in list order.\<close>

definition header_values :: "headers \<Rightarrow> string \<Rightarrow> string list" where
  "header_values h n = map snd (filter (\<lambda>kv. lower (fst kv) = n) h)"

fun combine :: "string list \<Rightarrow> string" where
  "combine [] = []"
| "combine [v] = v"
| "combine (v # w # vs) = v @ '', '' @ combine (w # vs)"

text \<open>\<^verbatim>\<open>Headers.prototype.get\<close>: the values of that name joined by comma and space, or null.\<close>

definition headers_get :: "headers \<Rightarrow> string \<Rightarrow> string option" where
  "headers_get h name =
     (let vs = header_values h (lower name) in if vs = [] then None else Some (combine vs))"

text \<open>
  Iterating a \<^verbatim>\<open>Headers\<close> object (what \<^verbatim>\<open>Object.fromEntries(request.headers)\<close>
  consumes): the names in lower case, sorted, each once with its combined value; only
  \<^verbatim>\<open>set-cookie\<close> yields one entry for each of its values.
\<close>

definition headers_entries :: "headers \<Rightarrow> (string \<times> string) list" where
  "headers_entries h =
     concat (map (\<lambda>n. if n = ''set-cookie''
                       then map (\<lambda>v. (n, v)) (header_values h n)
                       else [(n, combine (header_values h n))])
                 (sort (remdups (map (\<lambda>kv. lower (fst kv)) h))))"

text \<open>
  A JavaScript object with string keys: the properties in insertion order, each key once.
  Assigning to a key that exists replaces its value in place. (Keys that are array indices
  are enumerated first by the language; no statement below depends on the order.)
\<close>

fun obj_set :: "(string \<times> string) list \<Rightarrow> string \<Rightarrow> string \<Rightarrow> (string \<times> string) list" where
  "obj_set [] k v = [(k, v)]"
| "obj_set ((k', v') # kvs) k v =
     (if k' = k then (k, v) # kvs else (k', v') # obj_set kvs k v)"

definition Object_fromEntries :: "(string \<times> string) list \<Rightarrow> (string \<times> string) list" where
  "Object_fromEntries es = foldl (\<lambda>obj kv. obj_set obj (fst kv) (snd kv)) [] es"

text \<open>
  \<^verbatim>\<open>new Headers(record)\<close>, as the \<^verbatim>\<open>Request\<close> constructor builds it from the
  \<^verbatim>\<open>headers\<close> member of its init: every property is appended to an empty header list.
\<close>

definition Headers_of_object :: "(string \<times> string) list \<Rightarrow> headers" where
  "Headers_of_object obj = foldl (\<lambda>h kv. h @ [kv]) [] obj"

subsection \<open>Requests, responses, thrown values\<close>

record URL =
  href :: string
  pathname :: string

text \<open>
  \<open>url\<close> is \<^verbatim>\<open>new URL(request.url)\<close>; \<open>http_method\<close> is
  \<^verbatim>\<open>request.method\<close>; \<open>body\<close> is the bytes of the body stream, \<open>None\<close> for a
  null body.
\<close>

record request =
  url :: URL
  http_method :: string
  headers :: headers
  body :: "string option"

datatype json =
  JString string | JNumber nat | JArray "json list" | JObject "(string \<times> json) list"

text \<open>A response body is either \<^verbatim>\<open>JSON.stringify\<close> of a value or bytes sent by a container.\<close>

datatype response_body = JSON_stringify json | Bytes string

record response =
  status :: nat
  response_headers :: headers
  response_body :: response_body

definition ok :: "response \<Rightarrow> bool" where
  "ok r = (200 \<le> status r \<and> status r \<le> 299)"

text \<open>
  The \<^verbatim>\<open>message\<close> property of an \<^verbatim>\<open>Error\<close> object is declared a string, but at
  run time it is whatever was stored there. \<open>Text s\<close> is the string \<open>s\<close>.
  \<open>NonText c\<close> is a value that is not a string and has no \<^verbatim>\<open>includes\<close> method
  (undefined, null, a number, a boolean, a symbol); \<open>c\<close> is what
  \<^verbatim>\<open>Error.prototype.toString\<close> makes of it (the empty string for undefined), and
  \<open>None\<close> when that conversion throws (a symbol). Messages that are arrays or objects
  with an \<^verbatim>\<open>includes\<close> method of their own are not represented.
\<close>

datatype message = Text string | NonText "string option"

text \<open>
  A thrown value: an \<^verbatim>\<open>Error\<close> object with its name and message, or any other value,
  given by what \<^verbatim>\<open>String(value)\<close> returns, \<open>None\<close> when \<^verbatim>\<open>String(value)\<close>
  throws (an object without a usable \<^verbatim>\<open>toString\<close>).
\<close>

datatype thrown = ErrorObj string message | Thrown "string option"

text \<open>What a failed conversion or a call of a missing method throws.\<close>

datatype failure = TypeError

text \<open>\<^verbatim>\<open>String(error)\<close>; \<open>None\<close> when it throws.\<close>

fun String_of :: "thrown \<Rightarrow> string option" where
  "String_of (ErrorObj name (Text msg)) =
     Some (if name = [] then msg else if msg = [] then name else name @ '': '' @ msg)"
| "String_of (ErrorObj name (NonText None)) = None"
| "String_of (ErrorObj name (NonText (Some msg))) =
     Some (if name = [] then msg else if msg = [] then name else name @ '': '' @ msg)"
| "String_of (Thrown s) = s"

subsection \<open>The environment\<close>

text \<open>
  \<^verbatim>\<open>Promise.race([container.fetch(request), timer])\<close> ends in one of three ways: the
  container's promise resolves first, it rejects first, or the timer fires first.
\<close>

datatype race_outcome = Resolved response | Rejected thrown | TimerFired

text \<open>
  What the worker calls but does not define. \<open>getContainer\<close> is the library's lookup of
  the instance named by a job id (\<open>None\<close> is \<^verbatim>\<open>undefined\<close>); \<open>getRandom\<close> is the
  library's random choice, indexed by the number of earlier calls, and may throw;
  \<open>container_fetch k c r ms\<close> is how racing \<^verbatim>\<open>c.fetch(r)\<close> against a timer of
  \<open>ms\<close> milliseconds ends, where \<open>k\<close> tells the fetches of one invocation apart
  (the attempt in \<open>getHealthyContainer\<close>, 0 in the handler), as a container need not
  answer twice alike; \<open>randomUUID n\<close> is the value of the \<open>n\<close>-th call of
  \<^verbatim>\<open>crypto.randomUUID()\<close>.
\<close>

record 'c env =
  getContainer :: "string option \<Rightarrow> 'c"
  getRandom :: "nat \<Rightarrow> thrown + 'c"
  container_fetch :: "nat \<Rightarrow> 'c \<Rightarrow> request \<Rightarrow> nat \<Rightarrow> race_outcome"
  randomUUID :: "nat \<Rightarrow> string"

text \<open>
  What an invocation does besides returning, in order: the library lookups (with the key
  passed to \<open>getContainer\<close>), the container fetches (with the request sent and the
  timer raced), and the pauses.
\<close>

datatype 'c event =
    GetContainer "string option"
  | GetRandom
  | ContainerFetch 'c request nat
  | Sleep nat

text \<open>
  The result of one invocation of the handler: the response it returns, or the failure it
  throws (the promise of the handler rejects and the caller gets no response of the
  worker's making); the events in order; and the number of UUIDs drawn so far.
\<close>

record 'c result =
  resp :: "failure + response"
  events :: "'c event list"
  drawn :: nat

subsection \<open>getHealthyContainer\<close>

definition health_request :: request where
  "health_request =
     \<lparr>url = \<lparr>href = ''http://container/health'', pathname = ''/health''\<rparr>,
      http_method = ''GET'', headers = [], body = None\<rparr>"

text \<open>
  The loop \<^verbatim>\<open>for (let attempt = 0; attempt < maxRetries; attempt++)\<close>. An attempt that
  throws (the random choice, a rejected fetch, the 2000 ms timer) pauses 1000 ms unless it
  is the last; a health check that answers but is not ok goes on without a pause. After
  the loop the function throws.
\<close>

function getHealthyContainer_from :: "'c env \<Rightarrow> nat \<Rightarrow> nat \<Rightarrow> (thrown + 'c) \<times> 'c event list" where
  "getHealthyContainer_from env maxRetries attempt =
     (if attempt < maxRetries then
        (let caught = (\<lambda>evs.
               let pause = (if attempt < maxRetries - 1 then [Sleep 1000] else []);
                   rest = getHealthyContainer_from env maxRetries (Suc attempt)
               in (fst rest, evs @ pause @ snd rest))
         in case getRandom env attempt of
              Inl e \<Rightarrow> caught [GetRandom]
            | Inr container \<Rightarrow>
                (let evs = [GetRandom, ContainerFetch container health_request 2000]
                 in case container_fetch env attempt container health_request 2000 of
                      Resolved healthCheck \<Rightarrow>
                        if ok healthCheck then (Inr container, evs)
                        else (let rest = getHealthyContainer_from env maxRetries (Suc attempt)
                              in (fst rest, evs @ snd rest))
                    | Rejected e \<Rightarrow> caught evs
                    | TimerFired \<Rightarrow> caught evs))
      else (Inl (ErrorObj ''Error'' (Text ''No healthy container available'')), []))"
  by pat_completeness auto
termination
  by (relation "measure (\<lambda>(env, maxRetries, attempt). maxRetries - attempt)") auto

definition getHealthyContainer :: "'c env \<Rightarrow> nat \<Rightarrow> (thrown + 'c) \<times> 'c event list" where
  "getHealthyContainer env maxRetries = getHealthyContainer_from env maxRetries 0"

text \<open>
  One attempt, read off the loop body: the container it finds healthy, if any; whether it
  ends in the catch block; and its events when the loop runs \<open>maxRetries\<close> times.
\<close>

definition attempt_healthy :: "'c env \<Rightarrow> nat \<Rightarrow> 'c option" where
  "attempt_healthy env attempt =
     (case getRandom env attempt of
        Inl e \<Rightarrow> None
      | Inr container \<Rightarrow>
          (case container_fetch env attempt container health_request 2000 of
             Resolved healthCheck \<Rightarrow> if ok healthCheck then Some container else None
           | Rejected e \<Rightarrow> None
           | TimerFired \<Rightarrow> None))"

definition attempt_throws :: "'c env \<Rightarrow> nat \<Rightarrow> bool" where
  "attempt_throws env attempt =
     (case getRandom env attempt of
        Inl e \<Rightarrow> True
      | Inr container \<Rightarrow>
          (case container_fetch env attempt container health_request 2000 of
             Resolved healthCheck \<Rightarrow> False
           | Rejected e \<Rightarrow> True
           | TimerFired \<Rightarrow> True))"

definition attempt_events :: "'c env \<Rightarrow> nat \<Rightarrow> nat \<Rightarrow> 'c event list" where
  "attempt_events env maxRetries attempt =
     GetRandom
     # (case getRandom env attempt of
          Inl e \<Rightarrow> []
        | Inr container \<Rightarrow> [ContainerFetch container health_request 2000])
     @ (if attempt_throws env attempt \<and> Suc attempt < maxRetries then [Sleep 1000] else [])"

subsection \<open>The fetch handler\<close>

definition json_headers :: headers where
  "json_headers = [(''Content-Type'', ''application/json'')]"

definition health_response :: response where
  "health_response =
     \<lparr>status = 200, response_headers = json_headers,
      response_body = JSON_stringify (JObject [(''status'', JString ''ok'')])\<rparr>"

text \<open>
  The catch block of the upload route. \<open>errorMessage\<close> is
  \<^verbatim>\<open>error instanceof Error ? error.message : String(error)\<close>: the message as it is
  stored, or the conversion of the value, which may throw. Then
  \<^verbatim>\<open>errorMessage.includes('timeout')\<close> is called, which throws when the message is not
  a string. What the catch block throws, the handler throws.
\<close>

fun errorMessage :: "thrown \<Rightarrow> failure + message" where
  "errorMessage (ErrorObj name msg) = Inr msg"
| "errorMessage (Thrown s) =
     (case String_of (Thrown s) of None \<Rightarrow> Inl TypeError | Some str \<Rightarrow> Inr (Text str))"

definition upload_catch :: "thrown \<Rightarrow> failure + response" where
  "upload_catch error =
     (case errorMessage error of
        Inl f \<Rightarrow> Inl f
      | Inr (NonText c) \<Rightarrow> Inl TypeError
      | Inr (Text msg) \<Rightarrow>
          (let isTimeout = includes_str msg ''timeout''
           in Inr \<lparr>status = (if isTimeout then 504 else 500),
                   response_headers = json_headers,
                   response_body = JSON_stringify (JObject
                     [(''error'', JString (if isTimeout then ''Upload timeout - file too large''
                                            else ''Upload failed'')),
                      (''details'', JString msg)])\<rparr>))"

definition clonedRequest :: "request \<Rightarrow> string \<Rightarrow> request" where
  "clonedRequest request jobId =
     \<lparr>url = url request,
      http_method = http_method request,
      headers = Headers_of_object
        (obj_set (Object_fromEntries (headers_entries (headers request))) ''X-Job-Id'' jobId),
      body = body request\<rparr>"

definition upload_route :: "'c env \<Rightarrow> nat \<Rightarrow> request \<Rightarrow> 'c result" where
  "upload_route env n request =
     (let jobId = randomUUID env n;
          container = getContainer env (Some jobId);
          cloned = clonedRequest request jobId;
          evs = [GetContainer (Some jobId), ContainerFetch container cloned 25000]
      in case container_fetch env 0 container cloned 25000 of
           Resolved response \<Rightarrow> \<lparr>resp = Inr response, events = evs, drawn = Suc n\<rparr>
         | Rejected error \<Rightarrow> \<lparr>resp = upload_catch error, events = evs, drawn = Suc n\<rparr>
         | TimerFired \<Rightarrow>
             \<lparr>resp = upload_catch (ErrorObj ''Error'' (Text ''Upload timeout'')),
              events = evs, drawn = Suc n\<rparr>)"

text \<open>
  The catch blocks of the status and download routes; \<^verbatim>\<open>String(error)\<close> may throw.
\<close>

definition route_catch :: "string \<Rightarrow> thrown \<Rightarrow> failure + response" where
  "route_catch text error =
     (case String_of error of
        None \<Rightarrow> Inl TypeError
      | Some details \<Rightarrow>
          Inr \<lparr>status = 500, response_headers = json_headers,
               response_body = JSON_stringify (JObject
                 [(''error'', JString text), (''details'', JString details)])\<rparr>)"

definition status_route :: "'c env \<Rightarrow> nat \<Rightarrow> request \<Rightarrow> 'c result" where
  "status_route env n request =
     (let jobId = at_index (split_str (pathname (url request)) ''/status/'') 1;
          container = getContainer env jobId;
          evs = [GetContainer jobId, ContainerFetch container request 5000]
      in case container_fetch env 0 container request 5000 of
           Resolved response \<Rightarrow> \<lparr>resp = Inr response, events = evs, drawn = n\<rparr>
         | Rejected error \<Rightarrow>
             \<lparr>resp = route_catch ''Failed to check status'' error, events = evs, drawn = n\<rparr>
         | TimerFired \<Rightarrow>
             \<lparr>resp = route_catch ''Failed to check status''
                      (ErrorObj ''Error'' (Text ''Status check timeout'')),
              events = evs, drawn = n\<rparr>)"

definition download_route :: "'c env \<Rightarrow> nat \<Rightarrow> request \<Rightarrow> 'c result" where
  "download_route env n request =
     (let jobId = at_index (split_str (pathname (url request)) ''/download/'') 1;
          container = getContainer env jobId;
          evs = [GetContainer jobId, ContainerFetch container request 30000]
      in case container_fetch env 0 container request 30000 of
           Resolved response \<Rightarrow> \<lparr>resp = Inr response, events = evs, drawn = n\<rparr>
         | Rejected error \<Rightarrow>
             \<lparr>resp = route_catch ''Failed to download video'' error, events = evs, drawn = n\<rparr>
         | TimerFired \<Rightarrow>
             \<lparr>resp = route_catch ''Failed to download video''
                      (ErrorObj ''Error'' (Text ''Download timeout'')),
              events = evs, drawn = n\<rparr>)"

definition not_found_response :: response where
  "not_found_response =
     \<lparr>status = 404, response_headers = json_headers,
      response_body = JSON_stringify (JObject
        [(''error'', JString ''Not found''),
         (''available_endpoints'',
            JArray [JString ''POST /upload'', JString ''GET /status/{job_id}'',
                    JString ''GET /download/{job_id}''])])\<rparr>"

text \<open>
  \<^verbatim>\<open>fetch(request, env)\<close>; \<open>n\<close> is the number of UUIDs drawn before the invocation.
\<close>

definition fetch :: "'c env \<Rightarrow> nat \<Rightarrow> request \<Rightarrow> 'c result" where
  "fetch env n request =
     (if pathname (url request) = ''/health''
      then \<lparr>resp = Inr health_response, events = [], drawn = n\<rparr>
      else if pathname (url request) = ''/upload'' \<and> http_method request = ''POST''
      then upload_route env n request
      else if startsWith (pathname (url request)) ''/status/'' \<and> http_method request = ''GET''
      then status_route env n request
      else if startsWith (pathname (url request)) ''/download/'' \<and> http_method request = ''GET''
      then download_route env n request
      else \<lparr>resp = Inr not_found_response, events = [], drawn = n\<rparr>)"


definition is_upload :: "request \<Rightarrow> bool" where
  "is_upload request = (pathname (url request) = ''/upload'' \<and> http_method request = ''POST'')"

section \<open>The conversion core, from the specification\<close>

text \<open>
  Modelled from the spec: the job record of section 3. The Rust server that holds it is
  not among the sources. \<open>job_status\<close> is the spec's \<open>status\<close> and \<open>job_error\<close> its
  \<open>error\<close>; the options, the input path and the creation time are never changed and are
  left out.
\<close>

datatype job_status = Processing | Complete | Failed

record job =
  job_status :: job_status
  progress :: nat
  output_path :: "string option"
  detected_color :: "string option"
  job_error :: "string option"

text \<open>Modelled from the spec: the registry of section 4.1, a map from job ids to records.\<close>

type_synonym registry = "string \<rightharpoonup> job"

text \<open>Modelled from the spec: a created record is \<open>Processing\<close> with progress 0.\<close>

definition new_job :: job where
  "new_job = \<lparr>job_status = Processing, progress = 0, output_path = None,
              detected_color = None, job_error = None\<rparr>"

text \<open>Modelled from the spec: \<open>create\<close>, \<open>update(id, mutator)\<close> and \<open>remove\<close> of section 4.1.\<close>

definition registry_create :: "registry \<Rightarrow> string \<Rightarrow> registry" where
  "registry_create reg jid = reg(jid \<mapsto> new_job)"

definition registry_update :: "registry \<Rightarrow> string \<Rightarrow> (job \<Rightarrow> job) \<Rightarrow> registry" where
  "registry_update reg jid f = (case reg jid of None \<Rightarrow> reg | Some j \<Rightarrow> reg(jid \<mapsto> f j))"

definition registry_remove :: "registry \<Rightarrow> string \<Rightarrow> registry" where
  "registry_remove reg jid = reg(jid := None)"

text \<open>
  Modelled from the spec: the progress formula of section 4.3,
  \<open>min(99, floor(100 * processed_duration / total_duration))\<close>, on durations counted in
  whole units (microseconds, say), where the floor of the quotient is integer division.
\<close>

definition compute_progress :: "nat \<Rightarrow> nat \<Rightarrow> nat" where
  "compute_progress total_duration processed_duration =
     min 99 ((100 * processed_duration) div total_duration)"

text \<open>Modelled from the spec: the mutation the parser publishes for one status line.\<close>

definition publish_progress :: "nat \<Rightarrow> nat \<Rightarrow> job \<Rightarrow> job" where
  "publish_progress total_duration processed_duration j =
     j\<lparr>progress := compute_progress total_duration processed_duration\<rparr>"

text \<open>Modelled from the spec: the sampler of section 4.4 attaches a colour, nothing else.\<close>

definition attach_color :: "string \<Rightarrow> job \<Rightarrow> job" where
  "attach_color c j = j\<lparr>detected_color := Some c\<rparr>"

text \<open>
  Modelled from the spec: how the encoder subprocess ended: its exit code, the size of the
  output artifact (\<open>None\<close> when it is missing) and its diagnostic stream.
\<close>

record encoder_exit =
  exit_code :: int
  output_size :: "nat option"
  diagnostic :: string

text \<open>
  Modelled from the spec: the success and failure policies of section 4.3. \<open>limit\<close> is
  the bound on the diagnostic, which the spec leaves open.
\<close>

definition mark_complete :: "string \<Rightarrow> job \<Rightarrow> job" where
  "mark_complete path j = j\<lparr>job_status := Complete, output_path := Some path, progress := 100\<rparr>"

definition mark_failed :: "nat \<Rightarrow> string \<Rightarrow> job \<Rightarrow> job" where
  "mark_failed limit diag j = j\<lparr>job_status := Failed, job_error := Some (take limit diag)\<rparr>"

definition succeeded :: "encoder_exit \<Rightarrow> bool" where
  "succeeded e = (exit_code e = 0 \<and> (case output_size e of None \<Rightarrow> False | Some n \<Rightarrow> 0 < n))"

definition finish :: "nat \<Rightarrow> string \<Rightarrow> encoder_exit \<Rightarrow> job \<Rightarrow> job" where
  "finish limit path e j =
     (if succeeded e then mark_complete path j else mark_failed limit (diagnostic e) j)"

text \<open>
  Modelled from the spec: one orchestration task (sections 4.3, 4.4 and 9). It owns the
  subprocess, and the mutations it applies to its job are, in order: the sampled colour if
  there is one, then, when the probe of the total duration failed (\<open>Inl\<close> with the
  diagnostic), the failure; otherwise one published progress for each status line (given by
  its processed duration) and last the outcome of the subprocess. Nothing else mutates the
  job.
\<close>

record orchestration =
  sample :: "string option"
  probe :: "string + nat"
  status_lines :: "nat list"
  encoder_exit :: encoder_exit
  out_path :: string

definition color_updates :: "orchestration \<Rightarrow> (job \<Rightarrow> job) list" where
  "color_updates t = (case sample t of None \<Rightarrow> [] | Some c \<Rightarrow> [attach_color c])"

definition orchestrator_updates :: "nat \<Rightarrow> orchestration \<Rightarrow> (job \<Rightarrow> job) list" where
  "orchestrator_updates limit t =
     color_updates t @
     (case probe t of
        Inl diag \<Rightarrow> [mark_failed limit diag]
      | Inr total_duration \<Rightarrow>
          map (publish_progress total_duration) (status_lines t)
          @ [finish limit (out_path t) (encoder_exit t)])"

text \<open>Modelled from the spec: the successive snapshots of a record under its mutations.\<close>

fun snapshots :: "job \<Rightarrow> (job \<Rightarrow> job) list \<Rightarrow> job list" where
  "snapshots j [] = [j]"
| "snapshots j (f # fs) = j # snapshots (f j) fs"

definition job_history :: "nat \<Rightarrow> orchestration \<Rightarrow> job list" where
  "job_history limit t = snapshots new_job (orchestrator_updates limit t)"

text \<open>
  Modelled from the spec: the task publishes each of its mutations to the registry through
  \<open>update(id, mutator)\<close>, under the id of its own job.
\<close>

definition orchestrate :: "nat \<Rightarrow> orchestration \<Rightarrow> string \<Rightarrow> registry \<Rightarrow> registry" where
  "orchestrate limit t jid reg =
     foldl (\<lambda>r f. registry_update r jid f) reg (orchestrator_updates limit t)"

text \<open>
  Modelled from the spec: \<open>status\<close> and \<open>fetch_output\<close> of sections 4.5 and 6, as the
  responses of the table in section 6. \<open>files\<close> maps a path to the bytes stored there;
  \<open>not_ready\<close> is the status code of the not-ready error, which the spec gives as 409 or
  425. A delivered job is removed from the registry.
\<close>

definition status_name :: "job_status \<Rightarrow> string" where
  "status_name s = (case s of Processing \<Rightarrow> ''processing'' | Complete \<Rightarrow> ''complete''
                    | Failed \<Rightarrow> ''failed'')"

definition core_not_found :: response where
  "core_not_found =
     \<lparr>status = 404, response_headers = json_headers,
      response_body = JSON_stringify (JObject [(''error'', JString ''Job not found'')])\<rparr>"

definition core_status :: "registry \<Rightarrow> string \<Rightarrow> response" where
  "core_status reg jid =
     (case reg jid of
        None \<Rightarrow> core_not_found
      | Some j \<Rightarrow>
          \<lparr>status = 200, response_headers = json_headers,
           response_body = JSON_stringify (JObject
             ([(''status'', JString (status_name (job_status j))),
               (''progress'', JNumber (progress j))]
              @ (case detected_color j of None \<Rightarrow> []
                 | Some c \<Rightarrow> [(''detected_color'', JString c)])))\<rparr>)"

definition core_fetch_output ::
  "nat \<Rightarrow> (string \<rightharpoonup> string) \<Rightarrow> registry \<Rightarrow> string \<Rightarrow> response \<times> registry" where
  "core_fetch_output not_ready files reg jid =
     (case reg jid of
        None \<Rightarrow> (core_not_found, reg)
      | Some j \<Rightarrow>
          (case (job_status j, output_path j) of
             (Complete, Some path) \<Rightarrow>
               (\<lparr>status = 200,
                 response_headers = (''Content-Type'', ''video/webm'')
                   # (case detected_color j of None \<Rightarrow> []
                      | Some c \<Rightarrow> [(''X-Detected-Color'', c)]),
                 response_body = Bytes (case files path of None \<Rightarrow> [] | Some bs \<Rightarrow> bs)\<rparr>,
                registry_remove reg jid)
           | _ \<Rightarrow>
               (\<lparr>status = not_ready, response_headers = json_headers,
                 response_body = JSON_stringify (JObject [(''error'', JString ''Not ready'')])\<rparr>,
                reg)))"

text \<open>
  What holds of a job while its orchestration is under way: it is \<open>Processing\<close> and
  its progress is at most 99.
\<close>

definition in_progress :: "job \<Rightarrow> bool" where
  "in_progress j = (job_status j = Processing \<and> progress j \<le> 99)"

section \<open>Observations on events\<close>

text \<open>A pause, and a container fetch of the health request of \<open>getHealthyContainer\<close>.\<close>

fun is_pause :: "'c event \<Rightarrow> bool" where
  "is_pause (Sleep ms) = True"
| "is_pause e = False"

fun is_health_check :: "'c event \<Rightarrow> bool" where
  "is_health_check (ContainerFetch c r ms) = (r = health_request)"
| "is_health_check e = False"

section \<open>Concrete inputs\<close>

definition demo_env :: "nat env" where
  "demo_env =
     \<lparr>getContainer = (\<lambda>k. case k of None \<Rightarrow> 0 | Some s \<Rightarrow> length s),
      getRandom = (\<lambda>i. Inr i),
      container_fetch = (\<lambda>k c r ms. TimerFired),
      randomUUID = (\<lambda>i. replicate (Suc i) CHR ''a'')\<rparr>"

definition health_probe :: request where
  "health_probe =
     \<lparr>url = \<lparr>href = ''https://w.example/health'', pathname = ''/health''\<rparr>,
      http_method = ''DELETE'', headers = [(''X-Job-Id'', ''j'')], body = Some ''x''\<rparr>"

definition upload_probe :: request where
  "upload_probe =
     \<lparr>url = \<lparr>href = ''https://w.example/upload'', pathname = ''/upload''\<rparr>,
      http_method = ''POST'', headers = [(''Content-Type'', ''video/mp4'')], body = Some ''bytes''\<rparr>"

definition poll_probe :: request where
  "poll_probe =
     \<lparr>url = \<lparr>href = ''https://w.example/status/a'', pathname = ''/status/a''\<rparr>,
      http_method = ''GET'', headers = [], body = None\<rparr>"

definition download_probe :: request where
  "download_probe =
     \<lparr>url = \<lparr>href = ''https://w.example/download/a'', pathname = ''/download/a''\<rparr>,
      http_method = ''GET'', headers = [], body = None\<rparr>"

definition failing_env :: "nat env" where
  "failing_env =
     demo_env\<lparr>container_fetch :=
       (\<lambda>k c r ms. Rejected (ErrorObj ''Error'' (Text ''Network connection lost.'')))\<rparr>"



definition cookie_upload :: request where
  "cookie_upload =
     \<lparr>url = \<lparr>href = ''https://w.example/upload'', pathname = ''/upload''\<rparr>,
      http_method = ''POST'',
      headers = [(''Set-Cookie'', ''x=1''), (''Set-Cookie'', ''y=2'')],
      body = Some ''bytes''\<rparr>"


definition accepted :: response where
  "accepted =
     \<lparr>status = 200, response_headers = json_headers,
      response_body = JSON_stringify (JObject
        [(''job_id'', JString ''a''), (''status'', JString ''processing'')])\<rparr>"

definition sick_env :: "nat env" where
  "sick_env =
     demo_env\<lparr>container_fetch :=
       (\<lambda>k c r ms. if pathname (url r) = ''/health'' then TimerFired else Resolved accepted)\<rparr>"

definition recovering_env :: "nat env" where
  "recovering_env =
     demo_env\<lparr>container_fetch :=
       (\<lambda>k c r ms. if k = 0 then Resolved not_found_response
                    else if k = 1 then Rejected (Thrown (Some ''down''))
                    else Resolved health_response)\<rparr>"

definition core_env :: "nat env" where
  "core_env =
     demo_env\<lparr>container_fetch :=
       (\<lambda>k c r ms. if startsWith (pathname (url r)) ''/status/''
                    then Resolved (core_status Map.empty ''a'')
                    else Resolved (fst (core_fetch_output 409 Map.empty Map.empty ''a'')))\<rparr>"

definition tagged_upload :: request where
  "tagged_upload =
     \<lparr>url = \<lparr>href = ''https://w.example/upload'', pathname = ''/upload''\<rparr>,
      http_method = ''POST'',
      headers = [(''Content-Type'', ''video/mp4''), (''X-Job-Id'', ''j'')],
      body = Some ''bytes''\<rparr>"

definition demo_task :: orchestration where
  "demo_task =
     \<lparr>sample = Some ''0x00FF00'',
      probe = Inr 2000000,
      status_lines = [500000, 1000000, 2000000],
      encoder_exit = \<lparr>exit_code = 0, output_size = Some 1234, diagnostic = []\<rparr>,
      out_path = ''/tmp/conversions/a.webm''\<rparr>"

definition doomed_task :: orchestration where
  "doomed_task =
     \<lparr>sample = None,
      probe = Inr 2000000,
      status_lines = [500000],
      encoder_exit = \<lparr>exit_code = 1, output_size = None, diagnostic = ''Invalid data found''\<rparr>,
      out_path = ''/tmp/conversions/b.webm''\<rparr>"

section \<open>Strings\<close>

lemma includes_str_iff: "includes_str s sub \<longleftrightarrow> (\<exists>p q. s = p @ sub @ q)"
proof (induction s)
  case Nil
  then show ?case by auto
next
  case (Cons c cs)
  show ?case
  proof
    assume "includes_str (c # cs) sub"
    then consider "prefix sub (c # cs)" | "includes_str cs sub" by auto
    then show "\<exists>p q. c # cs = p @ sub @ q"
    proof cases
      case 1
      then obtain q where "c # cs = sub @ q" by (auto simp: prefix_def)
      then have "c # cs = [] @ sub @ q" by simp
      then show ?thesis by blast
    next
      case 2
      with Cons.IH obtain p q where "cs = p @ sub @ q" by blast
      then have "c # cs = (c # p) @ sub @ q" by simp
      then show ?thesis by blast
    qed
  next
    assume "\<exists>p q. c # cs = p @ sub @ q"
    then obtain p q where pq: "c # cs = p @ sub @ q" by blast
    show "includes_str (c # cs) sub"
    proof (cases p)
      case Nil
      with pq have "prefix sub (c # cs)" by (simp add: prefix_def)
      then show ?thesis by simp
    next
      case (Cons a p')
      with pq have "cs = p' @ sub @ q" by simp
      with Cons.IH have "includes_str cs sub" by blast
      then show ?thesis by simp
    qed
  qed
qed

section \<open>The health route\<close>

text \<open>
  C8. Every request whose path is \<^verbatim>\<open>/health\<close> is answered with status 200 and the body
  \<^verbatim>\<open>{"status":"ok"}\<close>, whatever the environment (the containers and their jobs), the
  method, the headers and the body are, and without any container fetch.
\<close>

theorem health_route_constant:
  assumes "pathname (url request) = ''/health''"
  shows "resp (fetch env n request) =
           Inr \<lparr>status = 200,
                response_headers = [(''Content-Type'', ''application/json'')],
                response_body = JSON_stringify (JObject [(''status'', JString ''ok'')])\<rparr>
       \<and> events (fetch env n request) = []
       \<and> fetch env n request = fetch env' n request"
  using assms by (simp add: fetch_def health_response_def json_headers_def)

theorem health_route_constant_witness:
  "pathname (url health_probe) = ''/health''
   \<and> resp (fetch demo_env 7 health_probe) =
         Inr \<lparr>status = 200,
              response_headers = [(''Content-Type'', ''application/json'')],
              response_body = JSON_stringify (JObject [(''status'', JString ''ok'')])\<rparr>
   \<and> events (fetch demo_env 7 health_probe) = []"
  using health_route_constant [of health_probe demo_env 7 demo_env]
  by (simp add: health_probe_def)

section \<open>The routes\<close>

lemma fetch_upload: "is_upload request \<Longrightarrow> fetch env n request = upload_route env n request"
  by (auto simp: fetch_def is_upload_def)

lemma fetch_status:
  assumes "startsWith (pathname (url request)) ''/status/''" and "http_method request = ''GET''"
  shows "fetch env n request = status_route env n request"
  using assms by (auto simp: fetch_def startsWith_def)

lemma fetch_download:
  assumes "startsWith (pathname (url request)) ''/download/''" and "http_method request = ''GET''"
  shows "fetch env n request = download_route env n request"
proof -
  from assms(1) obtain rest where "pathname (url request) = ''/download/'' @ rest"
    by (auto simp: startsWith_def prefix_def)
  with assms(2) show ?thesis by (simp add: fetch_def startsWith_def)
qed

lemma upload_route_events:
  "events (upload_route env n request) =
     [GetContainer (Some (randomUUID env n)),
      ContainerFetch (getContainer env (Some (randomUUID env n)))
        (clonedRequest request (randomUUID env n)) 25000]"
  by (simp add: upload_route_def Let_def split: race_outcome.splits)

lemma status_route_events:
  "events (status_route env n request) =
     [GetContainer (at_index (split_str (pathname (url request)) ''/status/'') 1),
      ContainerFetch (getContainer env (at_index (split_str (pathname (url request)) ''/status/'') 1))
        request 5000]"
  by (simp add: status_route_def Let_def split: race_outcome.splits)

lemma download_route_events:
  "events (download_route env n request) =
     [GetContainer (at_index (split_str (pathname (url request)) ''/download/'') 1),
      ContainerFetch (getContainer env (at_index (split_str (pathname (url request)) ''/download/'') 1))
        request 30000]"
  by (simp add: download_route_def Let_def split: race_outcome.splits)

lemma split_from_absent:
  "\<not> includes_str s sep \<Longrightarrow> split_from sep acc s = [rev acc @ s]"
  by (induction s arbitrary: acc) auto

lemma split_from_at_separator:
  assumes "sep \<noteq> []"
  shows "split_from sep acc (sep @ s) = rev acc # split_from sep [] s"
proof -
  from assms obtain c cs where sep: "sep = c # cs" by (cases sep) auto
  then show ?thesis by simp
qed

lemma job_id_of_path:
  assumes "sep \<noteq> []" and "\<not> includes_str jid sep"
  shows "at_index (split_str (sep @ jid) sep) 1 = Some jid"
  using assms by (simp add: split_str_def split_from_at_separator split_from_absent at_index_def)

lemma split_from_nonempty: "split_from sep acc s \<noteq> []"
  by (induction sep acc s rule: split_from.induct) auto

lemma job_id_defined:
  assumes "sep \<noteq> []" and "startsWith path sep"
  shows "at_index (split_str path sep) 1 \<noteq> None"
proof -
  from assms(2) obtain rest where "path = sep @ rest" by (auto simp: startsWith_def prefix_def)
  moreover have "split_from sep [] rest \<noteq> []"
    by (rule split_from_nonempty)
  ultimately show ?thesis using assms(1)
    by (cases "split_from sep [] rest") (auto simp: split_str_def split_from_at_separator at_index_def)
qed

section \<open>Routing by job id\<close>

text \<open>
  C1. A status request and a download request for the job id \<open>jid\<close> (the path is the
  route prefix followed by the id, and the id does not contain the prefix, as no UUID
  does) look their container up under the id taken from the path, and the upload that drew
  \<open>jid\<close> looked its container up under the same key: the three requests are sent to
  the same instance, \<open>getContainer env (Some jid)\<close>.
\<close>

theorem job_affinity:
  assumes "\<not> includes_str jid ''/status/''" and "\<not> includes_str jid ''/download/''"
    and "is_upload upload" and "randomUUID env n = jid"
    and "pathname (url poll) = ''/status/'' @ jid" and "http_method poll = ''GET''"
    and "pathname (url download) = ''/download/'' @ jid" and "http_method download = ''GET''"
  shows "events (fetch env n upload) =
           [GetContainer (Some jid),
            ContainerFetch (getContainer env (Some jid)) (clonedRequest upload jid) 25000]
       \<and> events (fetch env k poll) =
           [GetContainer (Some jid), ContainerFetch (getContainer env (Some jid)) poll 5000]
       \<and> events (fetch env m download) =
           [GetContainer (Some jid), ContainerFetch (getContainer env (Some jid)) download 30000]"
proof -
  have s: "fetch env k poll = status_route env k poll"
    using assms(5,6) by (intro fetch_status) (simp_all add: startsWith_def)
  have d: "fetch env m download = download_route env m download"
    using assms(7,8) by (intro fetch_download) (simp_all add: startsWith_def)
  have js: "at_index (split_str (pathname (url poll)) ''/status/'') 1 = Some jid"
    unfolding assms(5) using assms(1) by (intro job_id_of_path) simp_all
  have jd: "at_index (split_str (pathname (url download)) ''/download/'') 1 = Some jid"
    unfolding assms(7) using assms(2) by (intro job_id_of_path) simp_all
  show ?thesis
    using assms(3,4) js jd by (simp add: fetch_upload upload_route_events s d status_route_events
        download_route_events)
qed

theorem job_affinity_witness:
  "\<not> includes_str ''a'' ''/status/'' \<and> \<not> includes_str ''a'' ''/download/''
   \<and> is_upload upload_probe \<and> randomUUID demo_env 0 = ''a''
   \<and> events (fetch demo_env 0 upload_probe) =
         [GetContainer (Some ''a''), ContainerFetch 1 (clonedRequest upload_probe ''a'') 25000]
   \<and> events (fetch demo_env 1 poll_probe) =
         [GetContainer (Some ''a''), ContainerFetch 1 poll_probe 5000]
   \<and> events (fetch demo_env 1 download_probe) =
         [GetContainer (Some ''a''), ContainerFetch 1 download_probe 30000]"
proof -
  have h: "\<not> includes_str ''a'' ''/status/''" "\<not> includes_str ''a'' ''/download/''"
    "is_upload upload_probe" "randomUUID demo_env 0 = ''a''"
    "pathname (url poll_probe) = ''/status/'' @ ''a''" "http_method poll_probe = ''GET''"
    "pathname (url download_probe) = ''/download/'' @ ''a''" "http_method download_probe = ''GET''"
    by (simp_all add: is_upload_def upload_probe_def demo_env_def poll_probe_def
        download_probe_def)
  have g: "getContainer demo_env (Some ''a'') = 1" by (simp add: demo_env_def)
  show ?thesis
    using job_affinity [OF h, of 1 1] h(1-4) by (simp add: g)
qed

section \<open>The upload timeout\<close>

lemma upload_route_resp:
  "resp (upload_route env n request) =
     (case container_fetch env 0 (getContainer env (Some (randomUUID env n)))
             (clonedRequest request (randomUUID env n)) 25000 of
        Resolved response \<Rightarrow> Inr response
      | Rejected error \<Rightarrow> upload_catch error
      | TimerFired \<Rightarrow> upload_catch (ErrorObj ''Error'' (Text ''Upload timeout'')))"
  by (simp add: upload_route_def Let_def split: race_outcome.splits)

lemma upload_catch_text:
  "errorMessage error = Inr (Text msg) \<Longrightarrow>
   upload_catch error =
     Inr \<lparr>status = (if \<exists>p q. msg = p @ ''timeout'' @ q then 504 else 500),
          response_headers = [(''Content-Type'', ''application/json'')],
          response_body = JSON_stringify (JObject
            [(''error'', JString (if \<exists>p q. msg = p @ ''timeout'' @ q
                                   then ''Upload timeout - file too large''
                                   else ''Upload failed'')),
             (''details'', JString msg)])\<rparr>"
  by (simp add: upload_catch_def Let_def includes_str_iff json_headers_def)

lemma timer_message_has_timeout: "\<exists>p q. ''Upload timeout'' = p @ ''timeout'' @ q"
proof -
  have "''Upload timeout'' = ''Upload '' @ ''timeout'' @ []" by simp
  then show ?thesis by blast
qed

text \<open>
  C3, as the code has it. An upload is forwarded once and raced against a timer of
  25000 ms. When the container's response arrives first, that response is returned as it
  is. When the timer fires first, the caller gets status 504 with the error text
  \<^verbatim>\<open>Upload timeout - file too large\<close>, which says nothing about the job. When the
  fetch rejects first, with an error whose message is the string \<open>msg\<close> (or with another
  value that converts to the string \<open>msg\<close>), the caller gets 504 with the same text if
  \<open>msg\<close> contains \<^verbatim>\<open>timeout\<close>, and 500 with \<^verbatim>\<open>Upload failed\<close> if it does not.
\<close>

theorem upload_timeout:
  assumes "is_upload request"
  shows "events (fetch env n request) =
           [GetContainer (Some (randomUUID env n)),
            ContainerFetch (getContainer env (Some (randomUUID env n)))
              (clonedRequest request (randomUUID env n)) 25000]
       \<and> (container_fetch env 0 (getContainer env (Some (randomUUID env n)))
            (clonedRequest request (randomUUID env n)) 25000 = Resolved r
          \<longrightarrow> resp (fetch env n request) = Inr r)
       \<and> (container_fetch env 0 (getContainer env (Some (randomUUID env n)))
            (clonedRequest request (randomUUID env n)) 25000 = TimerFired
          \<longrightarrow> resp (fetch env n request) =
                Inr \<lparr>status = 504,
                     response_headers = [(''Content-Type'', ''application/json'')],
                     response_body = JSON_stringify (JObject
                       [(''error'', JString ''Upload timeout - file too large''),
                        (''details'', JString ''Upload timeout'')])\<rparr>)
       \<and> (container_fetch env 0 (getContainer env (Some (randomUUID env n)))
            (clonedRequest request (randomUUID env n)) 25000 = Rejected (ErrorObj name (Text msg))
           \<or> container_fetch env 0 (getContainer env (Some (randomUUID env n)))
            (clonedRequest request (randomUUID env n)) 25000 = Rejected (Thrown (Some msg))
          \<longrightarrow> resp (fetch env n request) =
                Inr \<lparr>status = (if \<exists>p q. msg = p @ ''timeout'' @ q then 504 else 500),
                     response_headers = [(''Content-Type'', ''application/json'')],
                     response_body = JSON_stringify (JObject
                       [(''error'', JString (if \<exists>p q. msg = p @ ''timeout'' @ q
                                              then ''Upload timeout - file too large''
                                              else ''Upload failed'')),
                        (''details'', JString msg)])\<rparr>)"
proof -
  have t: "upload_catch (ErrorObj ''Error'' (Text ''Upload timeout'')) =
             Inr \<lparr>status = 504,
                  response_headers = [(''Content-Type'', ''application/json'')],
                  response_body = JSON_stringify (JObject
                    [(''error'', JString ''Upload timeout - file too large''),
                     (''details'', JString ''Upload timeout'')])\<rparr>"
    using upload_catch_text [of "ErrorObj ''Error'' (Text ''Upload timeout'')" "''Upload timeout''"]
      timer_message_has_timeout by simp
  have e: "upload_catch (ErrorObj name (Text msg)) =
             Inr \<lparr>status = (if \<exists>p q. msg = p @ ''timeout'' @ q then 504 else 500),
                  response_headers = [(''Content-Type'', ''application/json'')],
                  response_body = JSON_stringify (JObject
                    [(''error'', JString (if \<exists>p q. msg = p @ ''timeout'' @ q
                                           then ''Upload timeout - file too large''
                                           else ''Upload failed'')),
                     (''details'', JString msg)])\<rparr>"
    by (rule upload_catch_text) simp
  have v: "upload_catch (Thrown (Some msg)) = upload_catch (ErrorObj name (Text msg))"
    by (simp add: upload_catch_def)
  show ?thesis
    unfolding fetch_upload [OF assms] upload_route_events upload_route_resp
    using t e v by (auto split: race_outcome.splits)
qed

theorem upload_timeout_witness:
  "is_upload upload_probe
   \<and> resp (fetch sick_env 0 upload_probe) = Inr accepted
   \<and> resp (fetch demo_env 0 upload_probe) =
         Inr \<lparr>status = 504,
              response_headers = [(''Content-Type'', ''application/json'')],
              response_body = JSON_stringify (JObject
                [(''error'', JString ''Upload timeout - file too large''),
                 (''details'', JString ''Upload timeout'')])\<rparr>"
proof -
  have u: "is_upload upload_probe" by (simp add: is_upload_def upload_probe_def)
  have p: "pathname (url (clonedRequest upload_probe j)) = ''/upload''" for j
    by (simp add: clonedRequest_def upload_probe_def)
  have t: "container_fetch demo_env 0 c q 25000 = TimerFired" for c q
    by (simp add: demo_env_def)
  have a: "container_fetch sick_env 0 c (clonedRequest upload_probe j) 25000 = Resolved accepted"
    for c j by (simp add: sick_env_def p)
  show ?thesis
    using upload_timeout [OF u, of demo_env 0] upload_timeout [OF u, of sick_env 0 accepted] t a u
    by simp
qed

text \<open>
  The claim as stated fails when the container does not respond because the fetch fails:
  in \<open>failing_env\<close> it rejects at once with \<^verbatim>\<open>Network connection lost.\<close>, and the
  caller gets 500 \<^verbatim>\<open>Upload failed\<close>, not a timeout response.
\<close>

theorem upload_timeout_counterexample:
  "is_upload upload_probe
   \<and> container_fetch failing_env 0 (getContainer failing_env (Some (randomUUID failing_env 0)))
        (clonedRequest upload_probe (randomUUID failing_env 0)) 25000
       = Rejected (ErrorObj ''Error'' (Text ''Network connection lost.''))
   \<and> resp (fetch failing_env 0 upload_probe) =
         Inr \<lparr>status = 500,
              response_headers = [(''Content-Type'', ''application/json'')],
              response_body = JSON_stringify (JObject
                [(''error'', JString ''Upload failed''),
                 (''details'', JString ''Network connection lost.'')])\<rparr>"
proof -
  have u: "is_upload upload_probe" by (simp add: is_upload_def upload_probe_def)
  have f: "container_fetch failing_env 0 c q 25000
             = Rejected (ErrorObj ''Error'' (Text ''Network connection lost.''))" for c q
    by (simp add: failing_env_def)
  have r: "resp (fetch failing_env 0 upload_probe) =
             upload_catch (ErrorObj ''Error'' (Text ''Network connection lost.''))"
    by (simp add: fetch_upload [OF u] upload_route_resp f)
  show ?thesis
    unfolding r using u f by (simp add: upload_catch_def json_headers_def)
qed

section \<open>Upload failures\<close>


section \<open>The headers of the forwarded upload\<close>

lemma lower_char_idem: "lower_char (lower_char c) = lower_char c"
  by (simp add: lower_char_def)

lemma lower_idem: "lower (lower s) = lower s"
  by (simp add: lower_def lower_char_idem)

lemma lower_job_header: "lower ''X-Job-Id'' = ''x-job-id''"
  by code_simp

lemma Headers_of_object_id: "Headers_of_object obj = obj"
proof -
  have "foldl (\<lambda>h kv. h @ [kv]) acc obj = acc @ obj" for acc
    by (induction obj arbitrary: acc) auto
  then show ?thesis by (simp add: Headers_of_object_def)
qed

lemma obj_set_fresh: "k \<notin> fst ` set obj \<Longrightarrow> obj_set obj k v = obj @ [(k, v)]"
  by (induction obj) auto

lemma obj_set_map_fst:
  "map fst (obj_set obj k v) = (if k \<in> set (map fst obj) then map fst obj else map fst obj @ [k])"
  by (induction obj) (force simp: image_iff)+

lemma obj_set_keys: "fst ` set (obj_set obj k v) = insert k (fst ` set obj)"
proof -
  have "set (map fst (obj_set obj k v)) = insert k (set (map fst obj))"
    unfolding obj_set_map_fst by auto
  then show ?thesis by simp
qed

lemma Object_fromEntries_keys: "fst ` set (Object_fromEntries es) = fst ` set es"
proof -
  have "fst ` set (foldl (\<lambda>obj kv. obj_set obj (fst kv) (snd kv)) acc es)
          = fst ` set acc \<union> fst ` set es" for acc
    by (induction es arbitrary: acc) (auto simp: obj_set_keys)
  then show ?thesis by (simp add: Object_fromEntries_def)
qed

lemma Object_fromEntries_distinct:
  assumes "distinct (map fst es)"
  shows "Object_fromEntries es = es"
proof -
  have "distinct (map fst (acc @ es)) \<Longrightarrow>
        foldl (\<lambda>obj kv. obj_set obj (fst kv) (snd kv)) acc es = acc @ es" for acc
  proof (induction es arbitrary: acc)
    case Nil
    then show ?case by simp
  next
    case (Cons e es)
    then have "fst e \<notin> fst ` set acc" by auto
    then have "obj_set acc (fst e) (snd e) = acc @ [e]" by (simp add: obj_set_fresh)
    moreover have "distinct (map fst ((acc @ [e]) @ es))" using Cons.prems by simp
    ultimately show ?case using Cons.IH [of "acc @ [e]"] by simp
  qed
  from this [of "[]"] assms show ?thesis by (simp add: Object_fromEntries_def)
qed

lemma headers_entries_keys:
  "fst ` set (headers_entries h) \<subseteq> (\<lambda>kv. lower (fst kv)) ` set h"
  by (fastforce simp: headers_entries_def image_iff split: if_splits)

lemma cloned_headers:
  "headers (clonedRequest request jobId) =
     Object_fromEntries (headers_entries (headers request)) @ [(''X-Job-Id'', jobId)]"
proof -
  have "''X-Job-Id'' \<notin> fst ` set (Object_fromEntries (headers_entries (headers request)))"
  proof
    assume "''X-Job-Id'' \<in> fst ` set (Object_fromEntries (headers_entries (headers request)))"
    then have "''X-Job-Id'' \<in> (\<lambda>kv. lower (fst kv)) ` set (headers request)"
      using headers_entries_keys by (auto simp: Object_fromEntries_keys)
    then obtain kv :: "string \<times> string" where kv: "''X-Job-Id'' = lower (fst kv)" by blast
    have "lower ''X-Job-Id'' = ''X-Job-Id''"
      by (metis kv lower_idem)
    then show False by (simp add: lower_job_header)
  qed
  then show ?thesis
    by (simp add: clonedRequest_def Headers_of_object_id obj_set_fresh)
qed

lemma header_values_append:
  "header_values (xs @ ys) n = header_values xs n @ header_values ys n"
  by (simp add: header_values_def)

lemma header_values_empty_iff:
  "header_values h n = [] \<longleftrightarrow> n \<notin> (\<lambda>kv. lower (fst kv)) ` set h"
  by (auto simp: header_values_def filter_empty_conv image_iff)

lemma filter_eq_distinct:
  "distinct xs \<Longrightarrow> filter (\<lambda>n. n = m) xs = (if m \<in> set xs then [m] else [])"
  by (induction xs) auto

lemma combine_single_or_none:
  "length vs \<le> 1 \<Longrightarrow> vs \<noteq> [] \<Longrightarrow> map (\<lambda>v. (n, v)) vs = [(n, combine vs)]"
  by (cases vs) auto

lemma headers_entries_single_cookie:
  assumes "length (header_values h ''set-cookie'') \<le> 1"
  shows "headers_entries h =
           map (\<lambda>n. (n, combine (header_values h n)))
               (sort (remdups (map (\<lambda>kv. lower (fst kv)) h)))"
proof -
  let ?names = "sort (remdups (map (\<lambda>kv. lower (fst kv)) h))"
  have "(if n = ''set-cookie'' then map (\<lambda>v. (n, v)) (header_values h n)
         else [(n, combine (header_values h n))]) = [(n, combine (header_values h n))]"
    if "n \<in> set ?names" for n
  proof (cases "n = ''set-cookie''")
    case True
    from that have "header_values h n \<noteq> []" by (simp add: header_values_empty_iff)
    with True assms show ?thesis by (simp add: combine_single_or_none)
  next
    case False
    then show ?thesis by simp
  qed
  then have "map (\<lambda>n. if n = ''set-cookie'' then map (\<lambda>v. (n, v)) (header_values h n)
                       else [(n, combine (header_values h n))]) ?names
             = map (\<lambda>n. [(n, combine (header_values h n))]) ?names"
    by (intro map_cong) simp_all
  then have "headers_entries h = concat (map (\<lambda>n. [(n, combine (header_values h n))]) ?names)"
    unfolding headers_entries_def by (rule arg_cong)
  then show ?thesis by (simp only: concat_map_singleton)
qed

lemma header_names_lower:
  "n \<in> set (sort (remdups (map (\<lambda>kv. lower (fst kv)) (h :: headers)))) \<Longrightarrow> lower n = n"
proof -
  assume "n \<in> set (sort (remdups (map (\<lambda>kv. lower (fst kv)) h)))"
  then have "n \<in> (\<lambda>kv. lower (fst kv)) ` set h" by simp
  then obtain kv :: "string \<times> string" where "n = lower (fst kv)" by blast
  then show "lower n = n" by (simp only: lower_idem)
qed

lemma header_values_of_entries:
  assumes "length (header_values h ''set-cookie'') \<le> 1"
  shows "header_values (Object_fromEntries (headers_entries h)) m =
           (if header_values h m = [] then [] else [combine (header_values h m)])"
proof -
  define names where "names = sort (remdups (map (\<lambda>kv. lower (fst kv)) h))"
  define G where "G = (\<lambda>n. (n, combine (header_values h n)))"
  have e: "headers_entries h = map G names"
    using assms unfolding names_def G_def by (rule headers_entries_single_cookie)
  have d: "distinct names" by (simp add: names_def)
  have "map fst (map G names) = names" by (simp add: G_def comp_def)
  with d have "distinct (map fst (map G names))" by simp
  then have o: "Object_fromEntries (headers_entries h) = map G names"
    unfolding e by (rule Object_fromEntries_distinct)
  have f1: "filter (\<lambda>kv. lower (fst kv) = m) (map G names)
          = map G (filter (\<lambda>n. lower n = m) names)"
    by (simp add: filter_map comp_def G_def)
  have f2: "filter (\<lambda>n. lower n = m) names = filter (\<lambda>n. n = m) names"
  proof (rule filter_cong)
    show "names = names" by simp
    fix n assume "n \<in> set names"
    then have "lower n = n" unfolding names_def by (rule header_names_lower)
    then show "(lower n = m) = (n = m)" by simp
  qed
  have f3: "filter (\<lambda>n. n = m) names = (if m \<in> set names then [m] else [])"
    using d by (rule filter_eq_distinct)
  have mem: "m \<in> set names \<longleftrightarrow> header_values h m \<noteq> []"
    by (simp add: names_def header_values_empty_iff)
  have "header_values (map G names) m = map snd (map G (filter (\<lambda>n. n = m) names))"
    unfolding header_values_def f1 f2 by (rule refl)
  also have "\<dots> = (if m \<in> set names then [combine (header_values h m)] else [])"
    unfolding f3 by (simp add: G_def)
  finally show ?thesis unfolding o mem by simp
qed

lemma cloned_header_values:
  assumes "length (header_values (headers request) ''set-cookie'') \<le> 1"
  shows "header_values (headers (clonedRequest request jobId)) m =
           (if header_values (headers request) m = [] then []
            else [combine (header_values (headers request) m)])
           @ (if m = ''x-job-id'' then [jobId] else [])"
proof -
  have tag: "header_values [(''X-Job-Id'', jobId)] m = (if m = ''x-job-id'' then [jobId] else [])"
    by (auto simp: header_values_def lower_job_header)
  show ?thesis
    by (simp only: cloned_headers header_values_append tag header_values_of_entries [OF assms])
qed

text \<open>
  What holds of every forwarded upload, whatever headers it carries (with at most one
  \<^verbatim>\<open>Set-Cookie\<close>): the URL, the method and the body are those of the incoming request,
  every header name other than \<^verbatim>\<open>X-Job-Id\<close> reads as it did, and \<^verbatim>\<open>X-Job-Id\<close> reads
  as the new id, preceded by the incoming value if there was one.
\<close>

lemma forwarded_upload_request:
  assumes "length (header_values (headers request) ''set-cookie'') \<le> 1"
  shows "url (clonedRequest request jobId) = url request
       \<and> http_method (clonedRequest request jobId) = http_method request
       \<and> body (clonedRequest request jobId) = body request
       \<and> (lower name \<noteq> ''x-job-id'' \<longrightarrow>
            headers_get (headers (clonedRequest request jobId)) name
              = headers_get (headers request) name)
       \<and> headers_get (headers (clonedRequest request jobId)) ''X-Job-Id'' =
           (case headers_get (headers request) ''X-Job-Id'' of
              None \<Rightarrow> Some jobId
            | Some old \<Rightarrow> Some (old @ '', '' @ jobId))"
proof -
  have u: "url (clonedRequest request jobId) = url request
       \<and> http_method (clonedRequest request jobId) = http_method request
       \<and> body (clonedRequest request jobId) = body request"
    by (simp add: clonedRequest_def)
  have o: "lower name \<noteq> ''x-job-id'' \<longrightarrow>
            headers_get (headers (clonedRequest request jobId)) name
              = headers_get (headers request) name"
    by (simp add: headers_get_def cloned_header_values [OF assms] Let_def)
  have j: "headers_get (headers (clonedRequest request jobId)) ''X-Job-Id'' =
           (case headers_get (headers request) ''X-Job-Id'' of
              None \<Rightarrow> Some jobId
            | Some old \<Rightarrow> Some (old @ '', '' @ jobId))"
    by (simp add: headers_get_def cloned_header_values [OF assms] Let_def lower_job_header)
  from u o j show ?thesis by blast
qed

lemma forwarded_set_cookie:
  "headers_get (headers cookie_upload) ''Set-Cookie'' = Some ''x=1, y=2''
   \<and> headers_get (headers (clonedRequest cookie_upload ''a'')) ''Set-Cookie'' = Some ''y=2''"
  by code_simp

section \<open>The forwarded upload request\<close>

text \<open>
  C9. The upload route means to add the header \<^verbatim>\<open>X-Job-Id\<close> with the new job id and to
  leave the rest of the request as it is, and it does so for an upload without such a
  header (see \<open>forwarded_upload_request\<close>). It does not for an upload that already
  carries an \<^verbatim>\<open>X-Job-Id\<close> header: the object built from the incoming headers has the
  key in lower case, the added key \<^verbatim>\<open>X-Job-Id\<close> is a second property, and the header
  list built from the object holds both. For \<open>tagged_upload\<close>, which carries the value
  \<^verbatim>\<open>j\<close>, and the new id \<^verbatim>\<open>a\<close>, the header of the forwarded request reads
  \<^verbatim>\<open>j, a\<close>: it is neither the incoming value nor the job id under which the container
  was looked up.
\<close>

theorem forwarded_job_header_collision:
  "is_upload tagged_upload
   \<and> randomUUID demo_env 0 = ''a''
   \<and> headers_get (headers tagged_upload) ''X-Job-Id'' = Some ''j''
   \<and> events (fetch demo_env 0 tagged_upload) =
       [GetContainer (Some ''a''), ContainerFetch 1 (clonedRequest tagged_upload ''a'') 25000]
   \<and> headers_get (headers (clonedRequest tagged_upload ''a'')) ''X-Job-Id'' = Some ''j, a''"
proof -
  have u: "is_upload tagged_upload" by (simp add: is_upload_def tagged_upload_def)
  have e: "events (fetch demo_env 0 tagged_upload) =
       [GetContainer (Some ''a''), ContainerFetch 1 (clonedRequest tagged_upload ''a'') 25000]"
    using u by (simp add: fetch_upload upload_route_events) (simp add: demo_env_def)
  have h: "headers_get (headers tagged_upload) ''X-Job-Id'' = Some ''j''" by code_simp
  have c: "headers_get (headers (clonedRequest tagged_upload ''a'')) ''X-Job-Id'' = Some ''j, a''"
    by code_simp
  have a: "randomUUID demo_env 0 = ''a''" by (simp add: demo_env_def)
  show ?thesis using u a e h c by simp
qed

section \<open>Job ids\<close>









section \<open>Health checks\<close>

declare getHealthyContainer_from.simps [simp del]

lemma getHealthyContainer_from_result:
  "fst (getHealthyContainer_from env m a) = Inr c \<Longrightarrow>
   \<exists>k. a \<le> k \<and> k < m \<and> getRandom env k = Inr c
      \<and> (\<exists>r. container_fetch env k c health_request 2000 = Resolved r \<and> ok r)"
proof (induction "m - a" arbitrary: a)
  case 0
  then show ?case by (simp add: getHealthyContainer_from.simps [of env m a])
next
  case (Suc d)
  then have d: "d = m - Suc a" and am: "a < m" by simp_all
  have ih: "fst (getHealthyContainer_from env m (Suc a)) = Inr c \<Longrightarrow>
     \<exists>k. a \<le> k \<and> k < m \<and> getRandom env k = Inr c
      \<and> (\<exists>r. container_fetch env k c health_request 2000 = Resolved r \<and> ok r)"
    using Suc.hyps(1) [OF d] by (meson Suc_leD)
  from Suc.prems am show ?case
    by (subst (asm) getHealthyContainer_from.simps)
       (auto simp: Let_def split: sum.splits race_outcome.splits if_splits dest: ih)
qed

lemma getHealthyContainer_from_error:
  "fst (getHealthyContainer_from env m a) = Inl e \<Longrightarrow>
   e = ErrorObj ''Error'' (Text ''No healthy container available'')"
proof (induction "m - a" arbitrary: a)
  case 0
  then show ?case by (simp add: getHealthyContainer_from.simps [of env m a])
next
  case (Suc d)
  then have d: "d = m - Suc a" and am: "a < m" by simp_all
  note ih = Suc.hyps(1) [OF d]
  from Suc.prems am show ?case
    by (subst (asm) getHealthyContainer_from.simps)
       (auto simp: Let_def split: sum.splits race_outcome.splits if_splits dest: ih)
qed

lemma getHealthyContainer_from_events:
  "length (filter is_health_check (snd (getHealthyContainer_from env m a))) \<le> m - a
   \<and> length (filter is_pause (snd (getHealthyContainer_from env m a))) \<le> m - a - 1
   \<and> set (filter is_pause (snd (getHealthyContainer_from env m a))) \<subseteq> {Sleep 1000}"
proof (induction "m - a" arbitrary: a)
  case 0
  then show ?case by (simp add: getHealthyContainer_from.simps [of env m a])
next
  case (Suc d)
  then have d: "d = m - Suc a" and am: "a < m" by simp_all
  note ih = Suc.hyps(1) [OF d]
  have hr: "is_health_check (ContainerFetch x health_request 2000)" for x :: 'a by simp
  from am ih show ?case
    by (subst (1 2 3) getHealthyContainer_from.simps)
       (auto simp: Let_def split: sum.splits race_outcome.splits)
qed


lemma fetch_events_cases:
  "events (fetch env n request) = []
   \<or> (is_upload request \<and> events (fetch env n request) = events (upload_route env n request))
   \<or> (startsWith (pathname (url request)) ''/status/''
        \<and> events (fetch env n request) = events (status_route env n request))
   \<or> (startsWith (pathname (url request)) ''/download/''
        \<and> events (fetch env n request) = events (download_route env n request))"
  by (simp add: fetch_def is_upload_def)

lemma fetch_no_health_check:
  "GetRandom \<notin> set (events (fetch env n request))
   \<and> filter is_health_check (events (fetch env n request)) = []"
proof -
  have u: "is_upload request \<Longrightarrow> clonedRequest request j \<noteq> health_request" for j
    by (auto simp: is_upload_def clonedRequest_def health_request_def)
  have s: "startsWith (pathname (url request)) ''/status/'' \<Longrightarrow> request \<noteq> health_request"
    by (auto simp: startsWith_def health_request_def)
  have d: "startsWith (pathname (url request)) ''/download/'' \<Longrightarrow> request \<noteq> health_request"
    by (auto simp: startsWith_def health_request_def)
  from fetch_events_cases [of env n request] show ?thesis
    by (auto simp: upload_route_events status_route_events download_route_events u s d)
qed

lemma attempt_step_healthy:
  assumes "a < m" and "attempt_healthy env a = Some c"
  shows "getHealthyContainer_from env m a = (Inr c, attempt_events env m a)"
  using assms
  by (subst getHealthyContainer_from.simps)
     (auto simp: attempt_healthy_def attempt_events_def attempt_throws_def Let_def
        split: sum.splits race_outcome.splits if_splits)

lemma attempt_step_unhealthy:
  assumes "a < m" and "attempt_healthy env a = None"
  shows "getHealthyContainer_from env m a =
           (fst (getHealthyContainer_from env m (Suc a)),
            attempt_events env m a @ snd (getHealthyContainer_from env m (Suc a)))"
  using assms
  by (subst getHealthyContainer_from.simps)
     (auto simp: attempt_healthy_def attempt_events_def attempt_throws_def Let_def
        split: sum.splits race_outcome.splits if_splits)

lemma getHealthyContainer_from_first_healthy:
  assumes "a \<le> k" and "k < m" and "attempt_healthy env k = Some c"
    and "\<forall>j. a \<le> j \<and> j < k \<longrightarrow> attempt_healthy env j = None"
  shows "getHealthyContainer_from env m a
           = (Inr c, concat (map (attempt_events env m) [a..<Suc k]))"
  using assms
proof (induction "k - a" arbitrary: a)
  case 0
  then have "a = k" by simp
  with 0 show ?case by (simp add: attempt_step_healthy)
next
  case (Suc d)
  then have lt: "a < k" and d: "d = k - Suc a" by simp_all
  have un: "attempt_healthy env a = None" using Suc.prems(4) lt by simp
  have am: "a < m" using lt Suc.prems(2) by simp
  have ih: "getHealthyContainer_from env m (Suc a)
              = (Inr c, concat (map (attempt_events env m) [Suc a..<Suc k]))"
    using Suc.hyps(1) [OF d] lt Suc.prems(2,3,4) by simp
  have up: "[a..<Suc k] = a # [Suc a..<Suc k]" using lt by (simp add: upt_conv_Cons)
  show ?case
    unfolding attempt_step_unhealthy [OF am un] ih up by simp
qed

lemma getHealthyContainer_from_none_healthy:
  assumes "\<forall>j. a \<le> j \<and> j < m \<longrightarrow> attempt_healthy env j = None"
  shows "getHealthyContainer_from env m a
           = (Inl (ErrorObj ''Error'' (Text ''No healthy container available'')),
              concat (map (attempt_events env m) [a..<m]))"
  using assms
proof (induction "m - a" arbitrary: a)
  case 0
  then show ?case by (simp add: getHealthyContainer_from.simps [of env m a])
next
  case (Suc d)
  then have am: "a < m" and d: "d = m - Suc a" by simp_all
  have un: "attempt_healthy env a = None" using Suc.prems am by simp
  have ih: "getHealthyContainer_from env m (Suc a)
              = (Inl (ErrorObj ''Error'' (Text ''No healthy container available'')),
                 concat (map (attempt_events env m) [Suc a..<m]))"
    using Suc.hyps(1) [OF d] Suc.prems by simp
  have up: "[a..<m] = a # [Suc a..<m]" using am by (simp add: upt_conv_Cons)
  show ?case
    unfolding attempt_step_unhealthy [OF am un] ih up by simp
qed

text \<open>
  C2, as the code has it. The handler never calls \<open>getHealthyContainer\<close>: no
  invocation chooses a random container or fetches the health request, and the upload,
  status and download routes send the request straight to the container looked up under
  the job id. \<open>getHealthyContainer\<close> itself runs its attempts in order, up to
  \<open>maxRetries\<close> of them. Each attempt chooses a random container and races its health
  check against 2000 ms; an attempt that throws (the choice, a rejected fetch, the timer)
  is followed by a pause of 1000 ms unless it is the last, an attempt whose health check
  answers but is not ok is followed by the next at once. The function returns the
  container of the first attempt whose health check answered ok, having made exactly the
  attempts up to that one; when none of the \<open>maxRetries\<close> attempts is healthy it has
  made them all and throws \<^verbatim>\<open>No healthy container available\<close>. A container it returns
  was chosen in one of the attempts and its health check there answered ok.
\<close>

theorem routing_without_health_check:
  "GetRandom \<notin> set (events (fetch env n request))
   \<and> filter is_health_check (events (fetch env n request)) = []
   \<and> (\<forall>k c. k < maxRetries \<and> attempt_healthy env k = Some c
             \<and> (\<forall>j<k. attempt_healthy env j = None) \<longrightarrow>
         getHealthyContainer env maxRetries
           = (Inr c, concat (map (attempt_events env maxRetries) [0..<Suc k])))
   \<and> ((\<forall>j<maxRetries. attempt_healthy env j = None) \<longrightarrow>
         getHealthyContainer env maxRetries
           = (Inl (ErrorObj ''Error'' (Text ''No healthy container available'')),
              concat (map (attempt_events env maxRetries) [0..<maxRetries])))
   \<and> (\<forall>c. fst (getHealthyContainer env maxRetries) = Inr c \<longrightarrow>
         (\<exists>k<maxRetries. getRandom env k = Inr c
            \<and> (\<exists>r. container_fetch env k c health_request 2000 = Resolved r \<and> ok r)))
   \<and> (\<forall>k c. attempt_healthy env k = Some c \<longleftrightarrow>
         getRandom env k = Inr c
         \<and> (\<exists>r. container_fetch env k c health_request 2000 = Resolved r \<and> ok r))
   \<and> (\<forall>attempt. attempt_events env maxRetries attempt =
         GetRandom
         # (case getRandom env attempt of
              Inl e \<Rightarrow> []
            | Inr container \<Rightarrow> [ContainerFetch container health_request 2000])
         @ (if (case getRandom env attempt of
                  Inl e \<Rightarrow> True
                | Inr container \<Rightarrow>
                    (\<forall>r. container_fetch env attempt container health_request 2000
                           \<noteq> Resolved r))
               \<and> Suc attempt < maxRetries
            then [Sleep 1000] else []))"
proof -
  have a: "\<forall>k c. k < maxRetries \<and> attempt_healthy env k = Some c
             \<and> (\<forall>j<k. attempt_healthy env j = None) \<longrightarrow>
         getHealthyContainer env maxRetries
           = (Inr c, concat (map (attempt_events env maxRetries) [0..<Suc k]))"
    unfolding getHealthyContainer_def
    using getHealthyContainer_from_first_healthy [of 0 _ maxRetries env] by simp
  have b: "(\<forall>j<maxRetries. attempt_healthy env j = None) \<longrightarrow>
         getHealthyContainer env maxRetries
           = (Inl (ErrorObj ''Error'' (Text ''No healthy container available'')),
              concat (map (attempt_events env maxRetries) [0..<maxRetries]))"
    unfolding getHealthyContainer_def
    using getHealthyContainer_from_none_healthy [of 0 maxRetries env] by simp
  have r: "\<forall>c. fst (getHealthyContainer env maxRetries) = Inr c \<longrightarrow>
         (\<exists>k<maxRetries. getRandom env k = Inr c
            \<and> (\<exists>r. container_fetch env k c health_request 2000 = Resolved r \<and> ok r))"
    unfolding getHealthyContainer_def using getHealthyContainer_from_result [of env maxRetries 0]
    by blast
  have e: "\<forall>attempt. attempt_events env maxRetries attempt =
         GetRandom
         # (case getRandom env attempt of
              Inl e \<Rightarrow> []
            | Inr container \<Rightarrow> [ContainerFetch container health_request 2000])
         @ (if (case getRandom env attempt of
                  Inl e \<Rightarrow> True
                | Inr container \<Rightarrow>
                    (\<forall>r. container_fetch env attempt container health_request 2000
                           \<noteq> Resolved r))
               \<and> Suc attempt < maxRetries
            then [Sleep 1000] else [])"
    by (auto simp: attempt_events_def attempt_throws_def
        split: sum.splits race_outcome.splits)
  have h: "\<forall>k c. attempt_healthy env k = Some c \<longleftrightarrow>
         getRandom env k = Inr c
         \<and> (\<exists>r. container_fetch env k c health_request 2000 = Resolved r \<and> ok r)"
    by (auto simp: attempt_healthy_def split: sum.splits race_outcome.splits if_splits)
  show ?thesis
    using fetch_no_health_check [of env n request] a b r h e by blast
qed

lemma recovering_attempts:
  "attempt_healthy recovering_env 0 = None"
  "attempt_healthy recovering_env (Suc 0) = None"
  "attempt_healthy recovering_env 2 = Some 2"
  by (simp_all add: attempt_healthy_def recovering_env_def demo_env_def ok_def
      not_found_response_def health_response_def)

lemma recovering_events:
  "concat (map (attempt_events recovering_env 3) [0..<Suc 2]) =
     [GetRandom, ContainerFetch 0 health_request 2000,
      GetRandom, ContainerFetch 1 health_request 2000, Sleep 1000,
      GetRandom, ContainerFetch 2 health_request 2000]"
  by (simp add: attempt_events_def attempt_throws_def recovering_env_def demo_env_def
      upt_rec numeral_2_eq_2 numeral_3_eq_3)

theorem routing_without_health_check_witness:
  "(2::nat) < 3 \<and> attempt_healthy recovering_env 2 = Some 2
   \<and> attempt_healthy recovering_env 0 = None \<and> attempt_healthy recovering_env 1 = None
   \<and> getHealthyContainer recovering_env 3 =
       (Inr 2, [GetRandom, ContainerFetch 0 health_request 2000,
                GetRandom, ContainerFetch 1 health_request 2000, Sleep 1000,
                GetRandom, ContainerFetch 2 health_request 2000])
   \<and> filter is_health_check (events (fetch recovering_env 0 upload_probe)) = []"
proof -
  have h: "(2::nat) < 3 \<and> attempt_healthy recovering_env 2 = Some 2
             \<and> (\<forall>j<2. attempt_healthy recovering_env j = None)"
    using recovering_attempts by (auto simp: less_Suc_eq numeral_2_eq_2)
  note t = routing_without_health_check [of recovering_env 0 upload_probe 3]
  have f: "filter is_health_check (events (fetch recovering_env 0 upload_probe)) = []"
    by (rule t [THEN conjunct2, THEN conjunct1])
  have g: "getHealthyContainer recovering_env 3
             = (Inr 2, concat (map (attempt_events recovering_env 3) [0..<Suc 2]))"
    by (rule t [THEN conjunct2, THEN conjunct2, THEN conjunct1, THEN spec, THEN spec, THEN mp,
          OF h])
  show ?thesis
    unfolding g recovering_events using f recovering_attempts by simp
qed

text \<open>
  The claim as stated fails: in \<open>sick_env\<close> every health check runs into its timer and
  \<open>getHealthyContainer\<close> finds no container, yet the upload is sent, unchecked, to the
  container of its job id, whose response is returned.
\<close>

theorem health_check_counterexample:
  "container_fetch sick_env 0 (getContainer sick_env (Some ''a'')) health_request 2000 = TimerFired
   \<and> fst (getHealthyContainer sick_env 3) = Inl (ErrorObj ''Error'' (Text ''No healthy container available''))
   \<and> events (fetch sick_env 0 upload_probe) =
       [GetContainer (Some ''a''),
        ContainerFetch (getContainer sick_env (Some ''a'')) (clonedRequest upload_probe ''a'') 25000]
   \<and> resp (fetch sick_env 0 upload_probe) = Inr accepted"
proof -
  have u: "is_upload upload_probe" by (simp add: is_upload_def upload_probe_def)
  have p: "pathname (url (clonedRequest upload_probe j)) = ''/upload''" for j
    by (simp add: clonedRequest_def upload_probe_def)
  have g: "fst (getHealthyContainer sick_env 3) = Inl (ErrorObj ''Error'' (Text ''No healthy container available''))"
    by (simp add: getHealthyContainer_def getHealthyContainer_from.simps sick_env_def
      demo_env_def health_request_def Let_def)
  have e: "events (fetch sick_env 0 upload_probe) =
       [GetContainer (Some ''a''),
        ContainerFetch (getContainer sick_env (Some ''a'')) (clonedRequest upload_probe ''a'') 25000]"
    using u by (simp add: fetch_upload upload_route_events) (simp add: sick_env_def demo_env_def)
  have r: "resp (fetch sick_env 0 upload_probe) = Inr accepted"
    using u by (simp add: fetch_upload upload_route_def Let_def sick_env_def p)
  have h: "container_fetch sick_env 0 (getContainer sick_env (Some ''a'')) health_request 2000 = TimerFired"
    by (simp add: sick_env_def health_request_def)
  show ?thesis using h g e r by simp
qed

section \<open>Unknown job ids\<close>

lemma status_route_resp:
  "resp (status_route env n request) =
     (case container_fetch env 0
             (getContainer env (at_index (split_str (pathname (url request)) ''/status/'') 1))
             request 5000 of
        Resolved response \<Rightarrow> Inr response
      | Rejected error \<Rightarrow> route_catch ''Failed to check status'' error
      | TimerFired \<Rightarrow>
          route_catch ''Failed to check status''
            (ErrorObj ''Error'' (Text ''Status check timeout'')))"
  by (simp add: status_route_def Let_def split: race_outcome.splits)

lemma download_route_resp:
  "resp (download_route env n request) =
     (case container_fetch env 0
             (getContainer env (at_index (split_str (pathname (url request)) ''/download/'') 1))
             request 30000 of
        Resolved response \<Rightarrow> Inr response
      | Rejected error \<Rightarrow> route_catch ''Failed to download video'' error
      | TimerFired \<Rightarrow>
          route_catch ''Failed to download video''
            (ErrorObj ''Error'' (Text ''Download timeout'')))"
  by (simp add: download_route_def Let_def split: race_outcome.splits)

lemma route_catch_converted:
  "String_of error = Some details \<Longrightarrow>
   route_catch text error =
     Inr \<lparr>status = 500,
          response_headers = [(''Content-Type'', ''application/json'')],
          response_body = JSON_stringify (JObject
            [(''error'', JString text), (''details'', JString details)])\<rparr>"
  by (simp add: route_catch_def json_headers_def)

text \<open>
  C7, as the code has it. For a job id that the registry of the container does not hold,
  the core answers NotFound (404), and the worker returns that answer as it is when it
  arrives before the timer of the route (5000 ms for status, 30000 ms for download). When
  the timer fires first, or the fetch rejects first with a value that converts to a
  string, the worker answers 500 instead, with the text \<^verbatim>\<open>Failed to check status\<close> or
  \<^verbatim>\<open>Failed to download video\<close>.
\<close>

theorem unknown_job_not_found:
  assumes "reg jid = None"
    and "pathname (url poll) = ''/status/'' @ jid" and "http_method poll = ''GET''"
    and "pathname (url download) = ''/download/'' @ jid" and "http_method download = ''GET''"
  shows "(container_fetch env 0
            (getContainer env (at_index (split_str (pathname (url poll)) ''/status/'') 1))
            poll 5000 = Resolved (core_status reg jid)
          \<longrightarrow> resp (fetch env n poll) = Inr core_not_found \<and> status core_not_found = 404)
       \<and> (container_fetch env 0
            (getContainer env (at_index (split_str (pathname (url download)) ''/download/'') 1))
            download 30000 = Resolved (fst (core_fetch_output not_ready files reg jid))
          \<longrightarrow> resp (fetch env n download) = Inr core_not_found \<and> status core_not_found = 404)
       \<and> (container_fetch env 0
            (getContainer env (at_index (split_str (pathname (url poll)) ''/status/'') 1))
            poll 5000 = TimerFired
           \<and> details = ''Error: Status check timeout''
           \<or> (\<exists>e. container_fetch env 0
                 (getContainer env (at_index (split_str (pathname (url poll)) ''/status/'') 1))
                 poll 5000 = Rejected e \<and> String_of e = Some details)
          \<longrightarrow> resp (fetch env n poll) =
                Inr \<lparr>status = 500,
                     response_headers = [(''Content-Type'', ''application/json'')],
                     response_body = JSON_stringify (JObject
                       [(''error'', JString ''Failed to check status''),
                        (''details'', JString details)])\<rparr>)
       \<and> (container_fetch env 0
            (getContainer env (at_index (split_str (pathname (url download)) ''/download/'') 1))
            download 30000 = TimerFired
           \<and> details = ''Error: Download timeout''
           \<or> (\<exists>e. container_fetch env 0
                 (getContainer env
                    (at_index (split_str (pathname (url download)) ''/download/'') 1))
                 download 30000 = Rejected e \<and> String_of e = Some details)
          \<longrightarrow> resp (fetch env n download) =
                Inr \<lparr>status = 500,
                     response_headers = [(''Content-Type'', ''application/json'')],
                     response_body = JSON_stringify (JObject
                       [(''error'', JString ''Failed to download video''),
                        (''details'', JString details)])\<rparr>)"
proof -
  have s: "fetch env n poll = status_route env n poll"
    using assms(2,3) by (intro fetch_status) (simp_all add: startsWith_def)
  have d: "fetch env n download = download_route env n download"
    using assms(4,5) by (intro fetch_download) (simp_all add: startsWith_def)
  have cs: "core_status reg jid = core_not_found"
    using assms(1) by (simp add: core_status_def)
  have cf: "fst (core_fetch_output not_ready files reg jid) = core_not_found"
    using assms(1) by (simp add: core_fetch_output_def)
  have nf: "status core_not_found = 404" by (simp add: core_not_found_def)
  have ts: "String_of (ErrorObj ''Error'' (Text ''Status check timeout''))
              = Some ''Error: Status check timeout''"
    and td: "String_of (ErrorObj ''Error'' (Text ''Download timeout''))
              = Some ''Error: Download timeout''"
    by simp_all
  show ?thesis
    unfolding s d status_route_resp download_route_resp cs cf
    using route_catch_converted [OF ts] route_catch_converted [OF td]
    by (auto simp: nf route_catch_converted split: race_outcome.splits)
qed

theorem unknown_job_not_found_witness:
  "(Map.empty :: registry) ''a'' = None
   \<and> resp (fetch core_env 0 poll_probe) = Inr core_not_found
   \<and> resp (fetch core_env 0 download_probe) = Inr core_not_found
   \<and> status core_not_found = 404
   \<and> resp (fetch demo_env 0 poll_probe) =
         Inr \<lparr>status = 500,
              response_headers = [(''Content-Type'', ''application/json'')],
              response_body = JSON_stringify (JObject
                [(''error'', JString ''Failed to check status''),
                 (''details'', JString ''Error: Status check timeout'')])\<rparr>
   \<and> resp (fetch demo_env 0 download_probe) =
         Inr \<lparr>status = 500,
              response_headers = [(''Content-Type'', ''application/json'')],
              response_body = JSON_stringify (JObject
                [(''error'', JString ''Failed to download video''),
                 (''details'', JString ''Error: Download timeout'')])\<rparr>"
proof -
  have h: "(Map.empty :: registry) ''a'' = None"
    "pathname (url poll_probe) = ''/status/'' @ ''a''" "http_method poll_probe = ''GET''"
    "pathname (url download_probe) = ''/download/'' @ ''a''" "http_method download_probe = ''GET''"
    by (simp_all add: poll_probe_def download_probe_def)
  have c: "container_fetch core_env 0 c poll_probe 5000 = Resolved (core_status Map.empty ''a'')"
    "container_fetch core_env 0 c download_probe 30000
       = Resolved (fst (core_fetch_output 409 Map.empty Map.empty ''a''))" for c
    by (simp_all add: core_env_def poll_probe_def download_probe_def startsWith_def)
  have t: "container_fetch demo_env 0 c r ms = TimerFired" for c r ms
    by (simp add: demo_env_def)
  note core = unknown_job_not_found [OF h, of core_env 0 409 Map.empty]
  note slow_s = unknown_job_not_found
    [OF h, of demo_env 0 409 Map.empty "''Error: Status check timeout''"]
  note slow_d = unknown_job_not_found
    [OF h, of demo_env 0 409 Map.empty "''Error: Download timeout''"]
  have 1: "resp (fetch core_env 0 poll_probe) = Inr core_not_found \<and> status core_not_found = 404"
    using core [THEN conjunct1] c(1) by simp
  have 2: "resp (fetch core_env 0 download_probe) = Inr core_not_found"
    using core [THEN conjunct2, THEN conjunct1] c(2) by simp
  have 3: "resp (fetch demo_env 0 poll_probe) =
         Inr \<lparr>status = 500,
              response_headers = [(''Content-Type'', ''application/json'')],
              response_body = JSON_stringify (JObject
                [(''error'', JString ''Failed to check status''),
                 (''details'', JString ''Error: Status check timeout'')])\<rparr>"
    using slow_s [THEN conjunct2, THEN conjunct2, THEN conjunct1] t by simp
  have 4: "resp (fetch demo_env 0 download_probe) =
         Inr \<lparr>status = 500,
              response_headers = [(''Content-Type'', ''application/json'')],
              response_body = JSON_stringify (JObject
                [(''error'', JString ''Failed to download video''),
                 (''details'', JString ''Error: Download timeout'')])\<rparr>"
    using slow_d [THEN conjunct2, THEN conjunct2, THEN conjunct2] t by simp
  from h(1) 1 2 3 4 show ?thesis by simp
qed

text \<open>
  The claim as stated fails: no job was ever issued in \<open>demo_env\<close>, whose containers
  do not answer in time, and the status and download requests for the id \<^verbatim>\<open>a\<close> are
  answered 500, not 404.
\<close>

theorem unknown_job_counterexample:
  "resp (fetch demo_env 0 poll_probe) =
     Inr \<lparr>status = 500,
          response_headers = [(''Content-Type'', ''application/json'')],
          response_body = JSON_stringify (JObject
            [(''error'', JString ''Failed to check status''),
             (''details'', JString ''Error: Status check timeout'')])\<rparr>
   \<and> resp (fetch demo_env 0 download_probe) =
     Inr \<lparr>status = 500,
          response_headers = [(''Content-Type'', ''application/json'')],
          response_body = JSON_stringify (JObject
            [(''error'', JString ''Failed to download video''),
             (''details'', JString ''Error: Download timeout'')])\<rparr>"
proof -
  have s: "fetch demo_env 0 poll_probe = status_route demo_env 0 poll_probe"
    by (intro fetch_status) (simp_all add: startsWith_def poll_probe_def)
  have d: "fetch demo_env 0 download_probe = download_route demo_env 0 download_probe"
    by (intro fetch_download) (simp_all add: startsWith_def download_probe_def)
  have t: "container_fetch demo_env 0 c r ms = TimerFired" for c r ms
    by (simp add: demo_env_def)
  show ?thesis
    by (simp add: s d status_route_resp download_route_resp t route_catch_def json_headers_def)
qed

section \<open>The history of a job\<close>

lemma snapshots_nonempty: "snapshots j fs \<noteq> []"
  by (cases fs) auto

lemma snapshots_length: "length (snapshots j fs) = Suc (length fs)"
  by (induction fs arbitrary: j) auto

lemma snapshots_snoc:
  "snapshots j (fs @ [g]) = snapshots j fs @ [g (last (snapshots j fs))]"
  by (induction fs arbitrary: j) (auto simp: snapshots_nonempty)

lemma snapshots_invariant:
  assumes "P j" and "\<And>f x. f \<in> set fs \<Longrightarrow> P x \<Longrightarrow> P (f x)"
  shows "\<forall>x\<in>set (snapshots j fs). P x"
  using assms by (induction fs arbitrary: j) auto

lemma snapshots_nth:
  "k \<le> length fs \<Longrightarrow> snapshots j fs ! k = foldl (\<lambda>x f. f x) j (take k fs)"
proof (induction fs arbitrary: j k)
  case Nil
  then show ?case by simp
next
  case (Cons f fs)
  then show ?case by (cases k) auto
qed

lemma snapshots_last: "last (snapshots j fs) = foldl (\<lambda>x f. f x) j fs"
  by (induction fs arbitrary: j) (auto simp: snapshots_nonempty)

lemma registry_update_fold:
  "foldl (\<lambda>r f. registry_update r jid f) (reg(jid \<mapsto> j)) fs
     = reg(jid \<mapsto> foldl (\<lambda>x f. f x) j fs)"
  by (induction fs arbitrary: j) (auto simp: registry_update_def)

lemma publish_fold:
  "foldl (\<lambda>x f. f x) j (map (publish_progress T) ls) =
     (if ls = [] then j else j\<lparr>progress := compute_progress T (last ls)\<rparr>)"
proof (induction ls rule: rev_induct)
  case Nil
  then show ?case by simp
next
  case (snoc l ls)
  then show ?case by (simp add: publish_progress_def)
qed

lemma color_fold:
  "job_status (foldl (\<lambda>x f. f x) new_job (color_updates t)) = Processing
   \<and> progress (foldl (\<lambda>x f. f x) new_job (color_updates t)) = 0"
  by (simp add: color_updates_def new_job_def attach_color_def split: option.splits)

lemma processing_updates_keep:
  assumes "f \<in> set (color_updates t) \<or> f \<in> publish_progress T ` set ls" and "in_progress x"
  shows "in_progress (f x)"
  using assms
  by (auto simp: in_progress_def color_updates_def attach_color_def publish_progress_def
      compute_progress_def split: option.splits)

lemma history_split:
  "\<exists>pre fin. job_history limit t = snapshots new_job pre @ [fin (last (snapshots new_job pre))]
      \<and> (\<forall>x\<in>set (snapshots new_job pre). in_progress x)
      \<and> (fin = mark_failed limit (case probe t of Inl d \<Rightarrow> d | Inr T \<Rightarrow> [])
          \<and> (\<exists>d. probe t = Inl d)
          \<or> fin = finish limit (out_path t) (encoder_exit t) \<and> (\<exists>T. probe t = Inr T))"
proof (cases "probe t")
  case (Inl d)
  let ?pre = "color_updates t"
  have "\<forall>x\<in>set (snapshots new_job ?pre). in_progress x"
  proof (rule snapshots_invariant)
    show "in_progress new_job" by (simp add: in_progress_def new_job_def)
    fix f x assume "f \<in> set ?pre" and "in_progress x"
    then show "in_progress (f x)"
      using processing_updates_keep [of f t 1 "[]" x] by auto
  qed
  moreover have "job_history limit t
      = snapshots new_job ?pre @ [mark_failed limit d (last (snapshots new_job ?pre))]"
    using Inl by (simp add: job_history_def orchestrator_updates_def snapshots_snoc)
  ultimately show ?thesis using Inl by auto
next
  case (Inr T)
  let ?pre = "color_updates t @ map (publish_progress T) (status_lines t)"
  have "\<forall>x\<in>set (snapshots new_job ?pre). in_progress x"
  proof (rule snapshots_invariant)
    show "in_progress new_job" by (simp add: in_progress_def new_job_def)
    fix f x assume "f \<in> set ?pre" and "in_progress x"
    then show "in_progress (f x)"
      using processing_updates_keep [of f t T "status_lines t" x] by auto
  qed
  moreover have "job_history limit t
      = snapshots new_job ?pre
        @ [finish limit (out_path t) (encoder_exit t) (last (snapshots new_job ?pre))]"
    using Inr snapshots_snoc [of new_job ?pre "finish limit (out_path t) (encoder_exit t)"]
    by (simp add: job_history_def orchestrator_updates_def)
  ultimately show ?thesis using Inr by auto
qed


lemma finish_outcome:
  assumes "in_progress x"
  shows "(job_status (finish limit path e x) = Complete \<and> progress (finish limit path e x) = 100
            \<and> succeeded e)
       \<or> (job_status (finish limit path e x) = Failed \<and> progress (finish limit path e x) \<le> 99
            \<and> \<not> succeeded e)"
  using assms by (simp add: finish_def mark_complete_def mark_failed_def in_progress_def)

lemma mark_failed_outcome:
  assumes "in_progress x"
  shows "job_status (mark_failed limit d x) = Failed \<and> progress (mark_failed limit d x) \<le> 99"
  using assms by (simp add: mark_failed_def in_progress_def)

lemma history_processing_prefix:
  assumes "Suc i < length (job_history limit t)"
  shows "in_progress (job_history limit t ! i)"
proof -
  from history_split [of limit t] obtain pre fin where
    h: "job_history limit t = snapshots new_job pre @ [fin (last (snapshots new_job pre))]"
    and p: "\<forall>x\<in>set (snapshots new_job pre). in_progress x" by blast
  from assms h have "i < length (snapshots new_job pre)" by simp
  then have "job_history limit t ! i = snapshots new_job pre ! i"
    and "snapshots new_job pre ! i \<in> set (snapshots new_job pre)"
    by (simp_all add: h nth_append)
  with p show ?thesis by simp
qed

lemma history_last:
  "(job_status (last (job_history limit t)) = Complete
      \<and> progress (last (job_history limit t)) = 100
      \<and> succeeded (encoder_exit t) \<and> (\<exists>T. probe t = Inr T))
   \<or> (job_status (last (job_history limit t)) = Failed
      \<and> progress (last (job_history limit t)) \<le> 99
      \<and> (\<not> succeeded (encoder_exit t) \<or> (\<exists>d. probe t = Inl d)))"
proof -
  from history_split [of limit t] obtain pre fin where
    h: "job_history limit t = snapshots new_job pre @ [fin (last (snapshots new_job pre))]"
    and p: "\<forall>x\<in>set (snapshots new_job pre). in_progress x"
    and f: "fin = mark_failed limit (case probe t of Inl d \<Rightarrow> d | Inr T \<Rightarrow> [])
              \<and> (\<exists>d. probe t = Inl d)
          \<or> fin = finish limit (out_path t) (encoder_exit t) \<and> (\<exists>T. probe t = Inr T)"
    by blast
  have l: "in_progress (last (snapshots new_job pre))"
    using p snapshots_nonempty [of new_job pre] by simp
  have e: "last (job_history limit t) = fin (last (snapshots new_job pre))"
    by (simp add: h)
  from f show ?thesis
  proof
    assume "fin = mark_failed limit (case probe t of Inl d \<Rightarrow> d | Inr T \<Rightarrow> [])
              \<and> (\<exists>d. probe t = Inl d)"
    then show ?thesis
      unfolding e using mark_failed_outcome [OF l] by auto
  next
    assume "fin = finish limit (out_path t) (encoder_exit t) \<and> (\<exists>T. probe t = Inr T)"
    then show ?thesis
      unfolding e using finish_outcome [OF l, of limit "out_path t" "encoder_exit t"] by auto
  qed
qed

lemma history_nonempty: "job_history limit t \<noteq> []"
  by (simp add: job_history_def snapshots_nonempty)

lemma history_element:
  assumes "x \<in> set (job_history limit t)"
  shows "in_progress x \<or> x = last (job_history limit t)"
proof -
  from assms obtain i where i: "i < length (job_history limit t)" "job_history limit t ! i = x"
    by (auto simp: in_set_conv_nth)
  show ?thesis
  proof (cases "Suc i < length (job_history limit t)")
    case True
    then show ?thesis using history_processing_prefix i(2) by blast
  next
    case False
    with i(1) have "i = length (job_history limit t) - 1" by simp
    then show ?thesis using i(2) history_nonempty [of limit t] by (simp add: last_conv_nth)
  qed
qed

lemma history_progress_line:
  assumes "probe t = Inr T" and "k < length (status_lines t)"
  shows "job_history limit t ! (length (color_updates t) + Suc k)
           = (foldl (\<lambda>x f. f x) new_job (color_updates t))
               \<lparr>progress := compute_progress T (status_lines t ! k)\<rparr>"
proof -
  let ?c = "color_updates t"
  let ?p = "map (publish_progress T) (status_lines t)"
  let ?fs = "orchestrator_updates limit t"
  have fs: "?fs = ?c @ ?p @ [finish limit (out_path t) (encoder_exit t)]"
    using assms(1) by (simp add: orchestrator_updates_def)
  have le: "length ?c + Suc k \<le> length ?fs" using assms(2) by (simp add: fs)
  have tk: "take (length ?c + Suc k) ?fs = ?c @ map (publish_progress T) (take (Suc k) (status_lines t))"
    using assms(2) by (simp add: fs take_map)
  have ne: "take (Suc k) (status_lines t) \<noteq> []" using assms(2) by auto
  have la: "last (take (Suc k) (status_lines t)) = status_lines t ! k"
    using assms(2) by (simp add: take_Suc_conv_app_nth)
  show ?thesis
    unfolding job_history_def snapshots_nth [OF le] tk
    using assms(2) ne by (auto simp: publish_fold la)
qed

lemma demo_history:
  "map job_status (job_history 200 demo_task)
     = [Processing, Processing, Processing, Processing, Processing, Complete]"
  "map progress (job_history 200 demo_task) = [0, 0, 25, 50, 99, 100]"
  by (simp_all add: job_history_def orchestrator_updates_def color_updates_def demo_task_def
      new_job_def attach_color_def publish_progress_def compute_progress_def finish_def
      succeeded_def mark_complete_def mark_failed_def)

lemma doomed_history:
  "map job_status (job_history 5 doomed_task) = [Processing, Processing, Failed]"
  "map job_error (job_history 5 doomed_task) = [None, None, Some ''Inval'']"
  by (simp_all add: job_history_def orchestrator_updates_def color_updates_def doomed_task_def
      new_job_def attach_color_def publish_progress_def compute_progress_def finish_def
      succeeded_def mark_complete_def mark_failed_def)

text \<open>
  C5. With a probed total duration, the snapshot published for the \<open>k\<close>-th status
  line is \<open>Processing\<close> with progress
  \<open>min 99 (100 * processed_duration div total_duration)\<close>; in the whole history of the
  job a progress of 100 is found exactly on a \<open>Complete\<close> snapshot; every snapshot
  but the last is \<open>Processing\<close> with progress at most 99; and the last is
  \<open>Complete\<close> exactly when the subprocess exited with code 0 and left a non-empty
  output.
\<close>

theorem progress_published:
  assumes "probe t = Inr total_duration" and "0 < total_duration"
  shows "(\<forall>k<length (status_lines t).
            job_status (job_history limit t ! (length (color_updates t) + Suc k)) = Processing
          \<and> progress (job_history limit t ! (length (color_updates t) + Suc k))
              = min 99 ((100 * (status_lines t ! k)) div total_duration))
       \<and> (\<forall>j\<in>set (job_history limit t). progress j = 100 \<longleftrightarrow> job_status j = Complete)
       \<and> (\<forall>i. Suc i < length (job_history limit t) \<longrightarrow>
            job_status (job_history limit t ! i) = Processing
          \<and> progress (job_history limit t ! i) \<le> 99)
       \<and> (job_status (last (job_history limit t)) = Complete
            \<longleftrightarrow> succeeded (encoder_exit t))"
proof -
  have a: "\<forall>k<length (status_lines t).
            job_status (job_history limit t ! (length (color_updates t) + Suc k)) = Processing
          \<and> progress (job_history limit t ! (length (color_updates t) + Suc k))
              = min 99 ((100 * (status_lines t ! k)) div total_duration)"
    using history_progress_line [OF assms(1)] color_fold [of t]
    by (simp add: compute_progress_def)
  have b: "\<forall>j\<in>set (job_history limit t). progress j = 100 \<longleftrightarrow> job_status j = Complete"
  proof
    fix j assume "j \<in> set (job_history limit t)"
    then consider "in_progress j" | "j = last (job_history limit t)"
      using history_element by blast
    then show "progress j = 100 \<longleftrightarrow> job_status j = Complete"
    proof cases
      case 1
      then show ?thesis by (auto simp: in_progress_def)
    next
      case 2
      then show ?thesis using history_last [of limit t] by auto
    qed
  qed
  have c: "\<forall>i. Suc i < length (job_history limit t) \<longrightarrow>
            job_status (job_history limit t ! i) = Processing
          \<and> progress (job_history limit t ! i) \<le> 99"
    using history_processing_prefix [of _ limit t] by (simp add: in_progress_def)
  have d: "job_status (last (job_history limit t)) = Complete \<longleftrightarrow> succeeded (encoder_exit t)"
    using history_last [of limit t] assms(1) by auto
  from a b c d show ?thesis by blast
qed

theorem progress_published_witness:
  "probe demo_task = Inr 2000000 \<and> (0::nat) < 2000000
   \<and> (2::nat) < length (status_lines demo_task)
   \<and> job_status (job_history 200 demo_task ! 4) = Processing
   \<and> progress (job_history 200 demo_task ! 4) = 99
   \<and> succeeded (encoder_exit demo_task)
   \<and> job_status (last (job_history 200 demo_task)) = Complete"
proof -
  have p: "probe demo_task = Inr 2000000" and z: "(0::nat) < 2000000"
    by (simp_all add: demo_task_def)
  have k: "(2::nat) < length (status_lines demo_task)" by (simp add: demo_task_def)
  have c: "length (color_updates demo_task) + Suc 2 = 4"
    by (simp add: color_updates_def demo_task_def)
  have l: "status_lines demo_task ! 2 = 2000000" by (simp add: demo_task_def)
  have s: "succeeded (encoder_exit demo_task)" by (simp add: succeeded_def demo_task_def)
  from progress_published [OF p z, of 200] k
  have "job_status (job_history 200 demo_task ! (length (color_updates demo_task) + Suc 2))
          = Processing
      \<and> progress (job_history 200 demo_task ! (length (color_updates demo_task) + Suc 2))
          = min 99 ((100 * (status_lines demo_task ! 2)) div 2000000)"
    and "job_status (last (job_history 200 demo_task)) = Complete
          \<longleftrightarrow> succeeded (encoder_exit demo_task)"
    by blast+
  then show ?thesis using p k s unfolding c l by simp
qed

text \<open>
  C6. In the history of a job every snapshot that is followed by another is
  \<open>Processing\<close>, and the last one is \<open>Complete\<close> or \<open>Failed\<close>: the status
  only moves from \<open>Processing\<close> to a terminal state, and the terminal snapshot is the
  result of the last mutation the orchestration task applies (the history has one
  snapshot more than the task has mutations). Run on the registry, the task leaves its
  job at that last snapshot and every other entry as it was. The readers do not mutate:
  \<open>status\<close> returns a response only, and \<open>fetch_output\<close> leaves every record as it
  is or removes it.
\<close>

theorem status_transitions:
  "(\<forall>i. Suc i < length (job_history limit t) \<longrightarrow>
       job_status (job_history limit t ! i) = Processing)
   \<and> (job_status (last (job_history limit t)) = Complete
       \<or> job_status (last (job_history limit t)) = Failed)
   \<and> length (job_history limit t) = Suc (length (orchestrator_updates limit t))
   \<and> orchestrate limit t jid (registry_create reg jid)
       = reg(jid \<mapsto> last (job_history limit t))
   \<and> (\<forall>k. snd (core_fetch_output not_ready files reg jid) k = reg k
          \<or> snd (core_fetch_output not_ready files reg jid) k = None)"
proof -
  have a: "\<forall>i. Suc i < length (job_history limit t) \<longrightarrow>
       job_status (job_history limit t ! i) = Processing"
    using history_processing_prefix [of _ limit t] by (simp add: in_progress_def)
  have b: "job_status (last (job_history limit t)) = Complete
       \<or> job_status (last (job_history limit t)) = Failed"
    using history_last [of limit t] by auto
  have c: "length (job_history limit t) = Suc (length (orchestrator_updates limit t))"
    by (simp add: job_history_def snapshots_length)
  have d: "\<forall>k. snd (core_fetch_output not_ready files reg jid) k = reg k
          \<or> snd (core_fetch_output not_ready files reg jid) k = None"
    by (auto simp: core_fetch_output_def registry_remove_def
        split: option.splits job_status.splits)
  have e: "orchestrate limit t jid (registry_create reg jid)
       = reg(jid \<mapsto> last (job_history limit t))"
    by (simp add: orchestrate_def registry_create_def registry_update_fold job_history_def
        snapshots_last)
  from a b c d e show ?thesis by blast
qed

theorem status_transitions_witness:
  "Suc 1 < length (job_history 5 doomed_task)
   \<and> job_status (job_history 5 doomed_task ! 1) = Processing
   \<and> job_status (last (job_history 5 doomed_task)) = Failed"
proof -
  have l: "Suc 1 < length (job_history 5 doomed_task)"
    using arg_cong [OF doomed_history(1), of length] by simp
  have f: "job_status (last (job_history 5 doomed_task)) = Failed"
    using arg_cong [OF doomed_history(1), of last] history_nonempty [of 5 doomed_task]
    by (simp add: last_map)
  from status_transitions [where limit = 5 and t = doomed_task] l
  have "job_status (job_history 5 doomed_task ! 1) = Processing" by blast
  with l f show ?thesis by simp
qed

end
